theory Spec2Isabelle
  imports Main "HOL-Library.AList"
begin

section \<open>JavaScript values\<close>

text \<open>
  The data the UI agent handles: template bodies, variable values, provider results and
  generated events are JSON-like JavaScript values. An object is the list of its own
  enumerable properties, in their order, each key once; its prototype is
  \<^verbatim>\<open>Object.prototype\<close>, and the values are data, never functions. \<open>JUndefined\<close> is
  the value \<^verbatim>\<open>undefined\<close>. Numbers are integers (array
  lengths, millisecond clocks). Text is the list of the bytes of its UTF-8 encoding, as
  the source file has it: an ASCII character is one byte.
\<close>

datatype jsval =
    JUndefined
  | JNull
  | JBool bool
  | JNum int
  | JStr string
  | JArr "jsval list"
  | JObj "(string \<times> jsval) list"

type_synonym jsobject = "(string \<times> jsval) list"

text \<open>The variables object of a call: property name to value.\<close>

type_synonym variables = "string \<rightharpoonup> jsval"

subsection \<open>String conversion\<close>

fun show_nat :: "nat \<Rightarrow> string" where
  "show_nat n =
     (if n < 10 then [''0123456789'' ! n]
      else show_nat (n div 10) @ [''0123456789'' ! (n mod 10)])"

declare show_nat.simps [simp del]

definition show_int :: "int \<Rightarrow> string" where
  "show_int i = (if i < 0 then CHR ''-'' # show_nat (nat (- i)) else show_nat (nat i))"

fun join_comma :: "string list \<Rightarrow> string" where
  "join_comma [] = []"
| "join_comma [s] = s"
| "join_comma (s # t # ss) = s @ CHR '','' # join_comma (t # ss)"

text \<open>
  \<^verbatim>\<open>String(v)\<close>, the conversion \<^verbatim>\<open>String.prototype.replace\<close> applies to what its
  replacer function returns. An array joins its elements with commas, \<^verbatim>\<open>null\<close> and
  \<^verbatim>\<open>undefined\<close> elements giving the empty string; an object gives
  \<^verbatim>\<open>[object Object]\<close>. This is the conversion of the values \<open>plain_value\<close> admits,
  defined next.
\<close>

fun to_string :: "jsval \<Rightarrow> string" where
  "to_string JUndefined = ''undefined''"
| "to_string JNull = ''null''"
| "to_string (JBool b) = (if b then ''true'' else ''false'')"
| "to_string (JNum n) = show_int n"
| "to_string (JStr s) = s"
| "to_string (JArr xs) =
     join_comma (map (\<lambda>x. if x = JUndefined \<or> x = JNull then [] else to_string x) xs)"
| "to_string (JObj fs) = ''[object Object]''"

text \<open>
  The values for which \<open>to_string\<close> is \<^verbatim>\<open>String\<close>: strings, booleans,
  \<^verbatim>\<open>null\<close>, \<^verbatim>\<open>undefined\<close>, the integers of magnitude below 9007199254740992, two to
  the power 53 (JavaScript holds them exactly and prints all their digits; a larger number
  is rounded, and printed with an exponent when it has more than 21 digits), arrays of
  such values, and objects without a \<open>toString\<close> property of their own. With such a
  property, which in JSON-like data is not a function, \<^verbatim>\<open>String\<close> throws a
  \<^verbatim>\<open>TypeError\<close>; without it, the inherited \<^verbatim>\<open>Object.prototype.toString\<close>
  answers, whatever else the object holds.
\<close>

fun plain_value :: "jsval \<Rightarrow> bool" where
  "plain_value (JNum n) = (- 9007199254740992 < n \<and> n < 9007199254740992)"
| "plain_value (JArr xs) = list_all plain_value xs"
| "plain_value (JObj fs) = (''toString'' \<notin> set (map fst fs))"
| "plain_value v = True"

section \<open>Placeholder substitution in one string\<close>

text \<open>The class \<^verbatim>\<open>\w\<close> of the regular expression: letters, digits and underscore.\<close>

definition is_word :: "char \<Rightarrow> bool" where
  "is_word c \<longleftrightarrow>
     c \<in> set ''abcdefghijklmnopqrstuvwxyzABCDEFGHIJKLMNOPQRSTUVWXYZ0123456789_''"

text \<open>
  One attempt of \<^verbatim>\<open>/\{\{(\w+)\}\}/\<close> at the head of the text: two opening braces, the
  longest non-empty run of word characters, two closing braces. The result is the captured
  name and the text after the match.
\<close>

definition match_placeholder :: "string \<Rightarrow> (string \<times> string) option" where
  "match_placeholder s =
     (if take 2 s = ''{{'' then
        (let name = takeWhile is_word (drop 2 s);
             rest = dropWhile is_word (drop 2 s)
         in if name \<noteq> [] \<and> take 2 rest = ''}}'' then Some (name, drop 2 rest) else None)
      else None)"

text \<open>
  The properties every plain object inherits from \<^verbatim>\<open>Object.prototype\<close>, each with the
  text \<^verbatim>\<open>String\<close> gives for its value (native functions as Node.js prints them).
  \<^verbatim>\<open>variables[name]\<close> finds them when the object has no own property of that name.
\<close>

definition native_function :: "string \<Rightarrow> string" where
  "native_function name = ''function '' @ name @ ''() { [native code] }''"

definition object_prototype :: "string \<rightharpoonup> string" where
  "object_prototype name =
     (if name = ''constructor'' then Some (native_function ''Object'')
      else if name \<in> set [''toString'', ''toLocaleString'', ''valueOf'', ''hasOwnProperty'',
                ''isPrototypeOf'', ''propertyIsEnumerable'', ''__defineGetter__'',
                ''__defineSetter__'', ''__lookupGetter__'', ''__lookupSetter__'']
        then Some (native_function name)
      else if name = ''__proto__'' then Some ''[object Object]''
      else None)"

text \<open>
  The replacer of \<^verbatim>\<open>replaceStringVariables\<close>:
  \<^verbatim>\<open>variables[variableName] !== undefined ? variables[variableName] : match\<close>,
  converted to a string by \<^verbatim>\<open>replace\<close>.
\<close>

definition replacer :: "variables \<Rightarrow> string \<Rightarrow> string" where
  "replacer vars variableName =
     (case vars variableName of
        Some v \<Rightarrow> if v \<noteq> JUndefined then to_string v else ''{{'' @ variableName @ ''}}''
      | None \<Rightarrow>
          (case object_prototype variableName of
             Some inherited \<Rightarrow> inherited
           | None \<Rightarrow> ''{{'' @ variableName @ ''}}''))"

text \<open>
  \<^verbatim>\<open>str.replace(/\{\{(\w+)\}\}/g, ...)\<close>: scan from the left; at a match, emit the
  replacer's text and go on after the match; otherwise keep one character and go on.
\<close>

function replaceStringVariables :: "string \<Rightarrow> variables \<Rightarrow> string" where
  "replaceStringVariables [] vars = []"
| "replaceStringVariables (c # cs) vars =
     (case match_placeholder (c # cs) of
        Some (name, rest) \<Rightarrow> replacer vars name @ replaceStringVariables rest vars
      | None \<Rightarrow> c # replaceStringVariables cs vars)"
  by pat_completeness auto
termination
proof (relation "measure (\<lambda>(s, vars). length s)")
  fix c cs vars m name rest
  assume "match_placeholder (c # cs) = Some m" and "(name, rest) = m"
  then have "rest = drop 2 (dropWhile is_word (drop 2 (c # cs)))"
    by (auto simp: match_placeholder_def Let_def split: if_splits)
  moreover have "length (dropWhile is_word (drop 2 (c # cs))) \<le> length (drop 2 (c # cs))"
    by (rule length_dropWhile_le)
  ultimately show "((rest, vars), c # cs, vars) \<in> measure (\<lambda>(s, vars). length s)"
    by simp
qed simp_all

section \<open>Template processing\<close>

text \<open>
  \<^verbatim>\<open>JSON.parse(JSON.stringify(x))\<close> on JSON-like data: a property whose value is
  \<^verbatim>\<open>undefined\<close> is dropped from its object, an \<^verbatim>\<open>undefined\<close> array element becomes
  \<^verbatim>\<open>null\<close>, everything else is rebuilt as it is.
\<close>

fun json_clone :: "jsval \<Rightarrow> jsval" where
  "json_clone (JObj fs) =
     JObj (map (\<lambda>(key, v). (key, json_clone v)) (filter (\<lambda>(key, v). v \<noteq> JUndefined) fs))"
| "json_clone (JArr xs) = JArr (map (\<lambda>v. if v = JUndefined then JNull else json_clone v) xs)"
| "json_clone v = v"

text \<open>
  \<^verbatim>\<open>replaceVariables(obj, variables)\<close>: the \<^verbatim>\<open>for ... in\<close> loop runs over the own
  keys of \<open>obj\<close>, the indices of an array included. A string property is rewritten; a
  property with \<^verbatim>\<open>typeof obj[key] === 'object'\<close> that is not \<^verbatim>\<open>null\<close> (an object
  or an array) is walked in turn; any other property stays. The source updates the clone
  in place; the model returns the walked value.
\<close>

fun replaceVariables :: "jsval \<Rightarrow> variables \<Rightarrow> jsval" where
  "replaceVariables (JObj fs) vars =
     JObj (map (\<lambda>(key, v).
       (key, case v of
               JStr str \<Rightarrow> JStr (replaceStringVariables str vars)
             | JObj _ \<Rightarrow> replaceVariables v vars
             | JArr _ \<Rightarrow> replaceVariables v vars
             | _ \<Rightarrow> v)) fs)"
| "replaceVariables (JArr xs) vars =
     JArr (map (\<lambda>v.
       case v of
         JStr str \<Rightarrow> JStr (replaceStringVariables str vars)
       | JObj _ \<Rightarrow> replaceVariables v vars
       | JArr _ \<Rightarrow> replaceVariables v vars
       | _ \<Rightarrow> v) xs)"
| "replaceVariables v vars = v"

definition processTemplate :: "jsobject \<Rightarrow> variables \<Rightarrow> jsval" where
  "processTemplate template vars = replaceVariables (json_clone (JObj template)) vars"

section \<open>The agent's state\<close>

text \<open>
  What a \<^verbatim>\<open>throw\<close> carries: an \<^verbatim>\<open>Error\<close> or \<^verbatim>\<open>TypeError\<close> with its message, or
  any other value (a provider may reject with whatever it likes).
\<close>

datatype thrown = Error string | TypeError string | Thrown jsval

text \<open>
  One reading of the system clock: \<^verbatim>\<open>Date.now()\<close> takes the milliseconds,
  \<^verbatim>\<open>new Date().toISOString()\<close> the ISO-8601 text. The clock is the sequence of the
  readings the process will get; the state counts how many it has taken.
\<close>

record instant =
  millis :: nat
  iso :: string

type_synonym clock = "nat \<Rightarrow> instant"

record session =
  session_id :: string
  created_at :: string
  last_activity :: string

text \<open>
  The AutoWeave instance the agent works with. Each provider call is given by its outcome
  (the awaited value, or what it throws; a missing method throws a \<^verbatim>\<open>TypeError\<close>);
  \<open>sendAGUIEvent\<close>, when the instance has one, returns what a delivery throws, if
  anything.
\<close>

record autoweave =
  getSystemHealth :: "thrown + jsval"
  getMetrics :: "thrown + jsval"
  listAgents :: "thrown + jsval"
  sendAGUIEvent :: "(jsval \<Rightarrow> string option \<Rightarrow> thrown option) option"

text \<open>
  The second argument of the constructor, kept in \<^verbatim>\<open>this.autoweaveInstance\<close>: left
  out (\<^verbatim>\<open>undefined\<close>), \<^verbatim>\<open>null\<close>, or an instance.
\<close>

datatype collaborator = NoInstance | NullInstance | Instance autoweave

text \<open>
  The fields of \<^verbatim>\<open>UIAgent\<close>. Templates are objects, as every seeded template is.
  A client id is a string or \<^verbatim>\<open>null\<close> (\<open>None\<close>).
\<close>

record ui_agent =
  autoweaveInstance :: collaborator
  eventTemplates :: "string \<rightharpoonup> jsobject"
  activeSessions :: "string \<rightharpoonup> session"
  uiStates :: "string \<rightharpoonup> (string \<rightharpoonup> jsval)"
  clock_reads :: nat

definition now :: "clock \<Rightarrow> ui_agent \<Rightarrow> instant \<times> ui_agent" where
  "now clk s = (clk (clock_reads s), s\<lparr>clock_reads := Suc (clock_reads s)\<rparr>)"

subsection \<open>The seeded templates\<close>

definition cross_mark :: string where
  "cross_mark = [CHR 0xC3, CHR 0xA2, CHR 0xC5, CHR 0x92]"

definition check_mark :: string where
  "check_mark = [CHR 0xC3, CHR 0xA2, CHR 0xC5, CHR 0x93, CHR 0xE2, CHR 0x80, CHR 0xA6]"


definition chat_welcome_template :: jsobject where
  "chat_welcome_template =
     [(''type'', JStr ''chat''),
      (''template'', JObj
        [(''text'', JStr (''Welcome to {{agent_name}}! I'' @ [CHR 0x27] @ ''m ready to help you with {{capabilities}}.'')),
         (''sender'', JStr ''{{agent_name}}''),
         (''timestamp'', JStr ''{{timestamp}}''),
         (''metadata'', JObj
           [(''event_type'', JStr ''welcome''),
            (''session_id'', JStr ''{{session_id}}'')])])]"

definition chat_response_template :: jsobject where
  "chat_response_template =
     [(''type'', JStr ''chat''),
      (''template'', JObj
        [(''text'', JStr ''{{message}}''),
         (''sender'', JStr ''{{agent_name}}''),
         (''timestamp'', JStr ''{{timestamp}}''),
         (''metadata'', JObj
           [(''event_type'', JStr ''response''),
            (''session_id'', JStr ''{{session_id}}''),
            (''tokens'', JStr ''{{tokens}}'')])])]"

definition chat_error_template :: jsobject where
  "chat_error_template =
     [(''type'', JStr ''chat''),
      (''template'', JObj
        [(''text'', JStr (cross_mark @ '' {{error_message}}'')),
         (''sender'', JStr ''{{agent_name}}''),
         (''timestamp'', JStr ''{{timestamp}}''),
         (''error'', JBool True),
         (''metadata'', JObj
           [(''event_type'', JStr ''error''),
            (''session_id'', JStr ''{{session_id}}'')])])]"

definition display_agent_list_template :: jsobject where
  "display_agent_list_template =
     [(''type'', JStr ''display''),
      (''template'', JObj
        [(''type'', JStr ''table''),
         (''title'', JStr ''Active Agents''),
         (''columns'', JArr [JStr ''id'', JStr ''name'', JStr ''status'', JStr ''created_at'']),
         (''data'', JStr ''{{agents_data}}''),
         (''timestamp'', JStr ''{{timestamp}}''),
         (''metadata'', JObj
           [(''event_type'', JStr ''agent_list''),
            (''total_agents'', JStr ''{{total_agents}}'')])])]"

definition display_metrics_template :: jsobject where
  "display_metrics_template =
     [(''type'', JStr ''display''),
      (''template'', JObj
        [(''type'', JStr ''metrics''),
         (''title'', JStr ''System Metrics''),
         (''data'', JStr ''{{metrics_data}}''),
         (''timestamp'', JStr ''{{timestamp}}''),
         (''metadata'', JObj
           [(''event_type'', JStr ''metrics''),
            (''refresh_rate'', JStr ''{{refresh_rate}}'')])])]"

definition display_form_template :: jsobject where
  "display_form_template =
     [(''type'', JStr ''display''),
      (''template'', JObj
        [(''type'', JStr ''form''),
         (''title'', JStr ''{{form_title}}''),
         (''description'', JStr ''{{form_description}}''),
         (''schema'', JStr ''{{form_schema}}''),
         (''action'', JStr ''{{form_action}}''),
         (''timestamp'', JStr ''{{timestamp}}''),
         (''metadata'', JObj
           [(''event_type'', JStr ''form''),
            (''form_id'', JStr ''{{form_id}}'')])])]"

definition display_success_template :: jsobject where
  "display_success_template =
     [(''type'', JStr ''display''),
      (''template'', JObj
        [(''type'', JStr ''success''),
         (''title'', JStr (check_mark @ '' {{success_title}}'')),
         (''message'', JStr ''{{success_message}}''),
         (''data'', JStr ''{{success_data}}''),
         (''timestamp'', JStr ''{{timestamp}}''),
         (''metadata'', JObj
           [(''event_type'', JStr ''success''),
            (''operation'', JStr ''{{operation}}'')])])]"

definition display_error_template :: jsobject where
  "display_error_template =
     [(''type'', JStr ''display''),
      (''template'', JObj
        [(''type'', JStr ''error''),
         (''title'', JStr (cross_mark @ '' {{error_title}}'')),
         (''message'', JStr ''{{error_message}}''),
         (''details'', JStr ''{{error_details}}''),
         (''timestamp'', JStr ''{{timestamp}}''),
         (''metadata'', JObj
           [(''event_type'', JStr ''error''),
            (''error_code'', JStr ''{{error_code}}'')])])]"

definition input_text_template :: jsobject where
  "input_text_template =
     [(''type'', JStr ''input''),
      (''template'', JObj
        [(''input_type'', JStr ''text''),
         (''label'', JStr ''{{label}}''),
         (''placeholder'', JStr ''{{placeholder}}''),
         (''required'', JStr ''{{required}}''),
         (''validation'', JStr ''{{validation}}''),
         (''timestamp'', JStr ''{{timestamp}}''),
         (''metadata'', JObj
           [(''event_type'', JStr ''input_request''),
            (''input_id'', JStr ''{{input_id}}'')])])]"

definition input_choice_template :: jsobject where
  "input_choice_template =
     [(''type'', JStr ''input''),
      (''template'', JObj
        [(''input_type'', JStr ''choice''),
         (''label'', JStr ''{{label}}''),
         (''options'', JStr ''{{options}}''),
         (''multiple'', JStr ''{{multiple}}''),
         (''timestamp'', JStr ''{{timestamp}}''),
         (''metadata'', JObj
           [(''event_type'', JStr ''input_request''),
            (''input_id'', JStr ''{{input_id}}'')])])]"

definition status_update_template :: jsobject where
  "status_update_template =
     [(''type'', JStr ''status''),
      (''template'', JObj
        [(''status'', JStr ''{{status}}''),
         (''message'', JStr ''{{message}}''),
         (''progress'', JStr ''{{progress}}''),
         (''timestamp'', JStr ''{{timestamp}}''),
         (''metadata'', JObj
           [(''event_type'', JStr ''status_update''),
            (''operation_id'', JStr ''{{operation_id}}'')])])]"

text \<open>The registry after \<^verbatim>\<open>initializeEventTemplates\<close>, in the order of the \<^verbatim>\<open>set\<close> calls.\<close>

definition initializeEventTemplates :: "(string \<times> jsobject) list" where
  "initializeEventTemplates =
     [(''chat-welcome'', chat_welcome_template),
      (''chat-response'', chat_response_template),
      (''chat-error'', chat_error_template),
      (''display-agent-list'', display_agent_list_template),
      (''display-metrics'', display_metrics_template),
      (''display-form'', display_form_template),
      (''display-success'', display_success_template),
      (''display-error'', display_error_template),
      (''input-text'', input_text_template),
      (''input-choice'', input_choice_template),
      (''status-update'', status_update_template)]"

text \<open>The constructor: seeded templates, no session, no UI state.\<close>

definition constructor :: "collaborator \<Rightarrow> ui_agent" where
  "constructor inst =
     \<lparr>autoweaveInstance = inst,
      eventTemplates = map_of initializeEventTemplates,
      activeSessions = Map.empty,
      uiStates = Map.empty,
      clock_reads = 0\<rparr>"

section \<open>Sessions and event generation\<close>

text \<open>
  \<^verbatim>\<open>getSessionId(clientId)\<close>. \<^verbatim>\<open>!clientId\<close> holds for \<^verbatim>\<open>null\<close> and for the empty
  string: the answer is then a one-off id that is not stored. Otherwise a missing record
  is created first (three clock readings, in the order of the object literal), and in
  either case \<open>last_activity\<close> is set from one more reading.
\<close>

definition getSessionId :: "clock \<Rightarrow> string option \<Rightarrow> ui_agent \<Rightarrow> string \<times> ui_agent" where
  "getSessionId clk clientId s =
     (case (if clientId = Some [] then None else clientId) of
        None \<Rightarrow>
          (let (t, s1) = now clk s in (''session-'' @ show_nat (millis t), s1))
      | Some c \<Rightarrow>
          (let (r, s1) =
                 (case activeSessions s c of
                    None \<Rightarrow>
                      (let (t0, sa) = now clk s;
                           (t1, sb) = now clk sa;
                           (t2, sc) = now clk sb
                       in (\<lparr>session_id = ''session-'' @ c @ ''-'' @ show_nat (millis t0),
                            created_at = iso t1,
                            last_activity = iso t2\<rparr>, sc))
                  | Some r \<Rightarrow> (r, s));
               (t3, s2) = now clk s1;
               r' = r\<lparr>last_activity := iso t3\<rparr>
           in (session_id r', s2\<lparr>activeSessions := (activeSessions s2)(c \<mapsto> r')\<rparr>)))"

text \<open>The \<open>defaultVariables\<close> object literal of \<^verbatim>\<open>generateEvent\<close>.\<close>

definition defaultVariables :: "clock \<Rightarrow> string option \<Rightarrow> ui_agent \<Rightarrow> variables \<times> ui_agent" where
  "defaultVariables clk clientId s =
     (let (t, s1) = now clk s;
          (sid, s2) = getSessionId clk clientId s1
      in ([''timestamp'' \<mapsto> JStr (iso t),
           ''agent_name'' \<mapsto> JStr ''AutoWeave'',
           ''session_id'' \<mapsto> JStr sid], s2))"

text \<open>\<^verbatim>\<open>{ ...defaultVariables, ...variables }\<close>: the later spread overwrites.\<close>

definition mergedVariables :: "variables \<Rightarrow> variables \<Rightarrow> variables" where
  "mergedVariables defaults vars = defaults ++ vars"

text \<open>\<^verbatim>\<open>obj[key] = v\<close> on an object: overwrite the property, or add it at the end.\<close>

fun set_property :: "jsval \<Rightarrow> string \<Rightarrow> jsval \<Rightarrow> jsval" where
  "set_property (JObj fs) key v = JObj (AList.update key v fs)"
| "set_property obj key v = obj"

definition client_id_value :: "string option \<Rightarrow> jsval" where
  "client_id_value clientId = (case clientId of None \<Rightarrow> JNull | Some c \<Rightarrow> JStr c)"

definition not_found :: "string \<Rightarrow> thrown" where
  "not_found templateId = Error (''Template '' @ [CHR 0x27] @ templateId @ [CHR 0x27] @ '' not found'')"

definition generateEvent ::
  "clock \<Rightarrow> string \<Rightarrow> variables \<Rightarrow> string option \<Rightarrow> ui_agent \<Rightarrow> (thrown + jsval) \<times> ui_agent" where
  "generateEvent clk templateId vars clientId s =
     (case eventTemplates s templateId of
        None \<Rightarrow> (Inl (not_found templateId), s)
      | Some template \<Rightarrow>
          (let (defaults, s1) = defaultVariables clk clientId s;
               event = processTemplate template (mergedVariables defaults vars);
               (t, s2) = now clk s1
           in (Inr (set_property event ''agui_metadata''
                      (JObj [(''generated_by'', JStr ''ui-agent''),
                             (''template_id'', JStr templateId),
                             (''generated_at'', JStr (iso t)),
                             (''client_id'', client_id_value clientId)])), s2)))"

subsection \<open>Template management\<close>

definition addCustomTemplate :: "string \<Rightarrow> jsobject \<Rightarrow> ui_agent \<Rightarrow> ui_agent" where
  "addCustomTemplate templateId template s =
     s\<lparr>eventTemplates := (eventTemplates s)(templateId \<mapsto> template)\<rparr>"

definition removeTemplate :: "string \<Rightarrow> ui_agent \<Rightarrow> bool \<times> ui_agent" where
  "removeTemplate templateId s =
     (eventTemplates s templateId \<noteq> None,
      s\<lparr>eventTemplates := (eventTemplates s)(templateId := None)\<rparr>)"

text \<open>A clock for worked examples: the \<open>n\<close>-th reading is \<open>n\<close> milliseconds.\<close>

definition sample_clock :: clock where
  "sample_clock n = \<lparr>millis = n, iso = ''T'' @ show_nat n\<rparr>"

section \<open>Delivery and the specialized flows\<close>

text \<open>
  A step of an asynchronous method: it runs in a state and either throws (rejects) or
  yields a value, in a new state. \<open>and_then\<close> is sequencing (a throw skips the rest),
  \<open>try_catch\<close> is \<^verbatim>\<open>try { ... } catch (error) { ... }\<close>.
\<close>

type_synonym 'a action = "ui_agent \<Rightarrow> (thrown + 'a) \<times> ui_agent"

definition return_value :: "'a \<Rightarrow> 'a action" where
  "return_value v s = (Inr v, s)"

definition and_then :: "'a action \<Rightarrow> ('a \<Rightarrow> 'b action) \<Rightarrow> 'b action" where
  "and_then m f s = (case m s of (Inl e, s1) \<Rightarrow> (Inl e, s1) | (Inr v, s1) \<Rightarrow> f v s1)"

definition try_catch :: "'a action \<Rightarrow> (thrown \<Rightarrow> 'a action) \<Rightarrow> 'a action" where
  "try_catch body handler s =
     (case body s of (Inl e, s1) \<Rightarrow> handler e s1 | (Inr v, s1) \<Rightarrow> (Inr v, s1))"

definition generateChatEvent ::
  "clock \<Rightarrow> string \<Rightarrow> variables \<Rightarrow> string option \<Rightarrow> jsval action" where
  "generateChatEvent clk templateId vars clientId = generateEvent clk templateId vars clientId"

definition generateDisplayEvent ::
  "clock \<Rightarrow> string \<Rightarrow> variables \<Rightarrow> string option \<Rightarrow> jsval action" where
  "generateDisplayEvent clk templateId vars clientId = generateEvent clk templateId vars clientId"

text \<open>
  \<^verbatim>\<open>sendEvent(event, clientId)\<close>: with an instance that has \<^verbatim>\<open>sendAGUIEvent\<close> the
  event is handed over and whatever the delivery throws goes on to the caller (there is no
  \<^verbatim>\<open>try\<close> here); otherwise nothing is delivered. The logger calls are left out.
\<close>

definition sendEvent :: "jsval \<Rightarrow> string option \<Rightarrow> unit action" where
  "sendEvent event clientId s =
     (case autoweaveInstance s of
        Instance inst \<Rightarrow>
          (case sendAGUIEvent inst of
             None \<Rightarrow> (Inr (), s)
           | Some send \<Rightarrow>
               (case send event clientId of Some e \<Rightarrow> (Inl e, s) | None \<Rightarrow> (Inr (), s)))
      | _ \<Rightarrow> (Inr (), s))"


text \<open>
  \<^verbatim>\<open>await this.autoweaveInstance.method()\<close>: without an instance the property access
  throws a \<^verbatim>\<open>TypeError\<close>, worded after what the field holds.
\<close>

definition call_provider :: "(autoweave \<Rightarrow> thrown + jsval) \<Rightarrow> string \<Rightarrow> jsval action" where
  "call_provider method name s =
     (case autoweaveInstance s of
        NoInstance \<Rightarrow>
          (Inl (TypeError (''Cannot read properties of undefined (reading '' @ [CHR 0x27]
                  @ name @ [CHR 0x27] @ '')'')), s)
      | NullInstance \<Rightarrow>
          (Inl (TypeError (''Cannot read properties of null (reading '' @ [CHR 0x27]
                  @ name @ [CHR 0x27] @ '')'')), s)
      | Instance inst \<Rightarrow> (method inst, s))"

text \<open>\<^verbatim>\<open>error.message\<close> in a \<^verbatim>\<open>catch\<close> block, for whatever value was thrown.\<close>

fun message_of :: "thrown \<Rightarrow> thrown + jsval" where
  "message_of (Error m) = Inr (JStr m)"
| "message_of (TypeError m) = Inr (JStr m)"
| "message_of (Thrown JUndefined) =
     Inl (TypeError (''Cannot read properties of undefined (reading '' @ [CHR 0x27]
            @ ''message'' @ [CHR 0x27] @ '')''))"
| "message_of (Thrown JNull) =
     Inl (TypeError (''Cannot read properties of null (reading '' @ [CHR 0x27]
            @ ''message'' @ [CHR 0x27] @ '')''))"
| "message_of (Thrown (JObj fs)) =
     Inr (case map_of fs ''message'' of Some v \<Rightarrow> v | None \<Rightarrow> JUndefined)"
| "message_of (Thrown v) = Inr JUndefined"

text \<open>JavaScript truthiness, for \<^verbatim>\<open>||\<close> and \<^verbatim>\<open>? :\<close>.\<close>

fun truthy :: "jsval \<Rightarrow> bool" where
  "truthy JUndefined = False"
| "truthy JNull = False"
| "truthy (JBool b) = b"
| "truthy (JNum n) = (n \<noteq> 0)"
| "truthy (JStr s) = (s \<noteq> [])"
| "truthy v = True"

text \<open>\<^verbatim>\<open>agents.agents\<close> on the provider's result.\<close>

fun agents_of :: "jsval \<Rightarrow> thrown + jsval" where
  "agents_of JUndefined =
     Inl (TypeError (''Cannot read properties of undefined (reading '' @ [CHR 0x27]
            @ ''agents'' @ [CHR 0x27] @ '')''))"
| "agents_of JNull =
     Inl (TypeError (''Cannot read properties of null (reading '' @ [CHR 0x27]
            @ ''agents'' @ [CHR 0x27] @ '')''))"
| "agents_of (JObj fs) = Inr (case map_of fs ''agents'' of Some v \<Rightarrow> v | None \<Rightarrow> JUndefined)"
| "agents_of v = Inr JUndefined"

text \<open>
  The length of a string counts UTF-16 code units: one for a character of up to three
  UTF-8 bytes, two for a character of four; the bytes that continue a character
  (\<open>0x80\<close> to \<open>0xBF\<close>) count nothing.
\<close>

definition utf16_units :: "char \<Rightarrow> nat" where
  "utf16_units c =
     (if of_char c < (0x80::nat) then 1
      else if of_char c < (0xC0::nat) then 0
      else if of_char c < (0xF0::nat) then 1
      else 2)"

definition utf16_length :: "string \<Rightarrow> nat" where
  "utf16_length s = sum_list (map utf16_units s)"

text \<open>\<^verbatim>\<open>x.length\<close> on a truthy value.\<close>

fun length_of :: "jsval \<Rightarrow> jsval" where
  "length_of (JArr xs) = JNum (int (length xs))"
| "length_of (JStr s) = JNum (int (utf16_length s))"
| "length_of (JObj fs) = (case map_of fs ''length'' of Some v \<Rightarrow> v | None \<Rightarrow> JUndefined)"
| "length_of v = JUndefined"

text \<open>The variables of the two \<^verbatim>\<open>catch\<close> blocks.\<close>

definition health_error_variables :: "jsval \<Rightarrow> variables" where
  "health_error_variables details =
     [''error_title'' \<mapsto> JStr ''Health Check Failed'',
      ''error_message'' \<mapsto> JStr ''Unable to retrieve system health'',
      ''error_details'' \<mapsto> details,
      ''error_code'' \<mapsto> JStr ''HEALTH_CHECK_ERROR'']"

definition list_error_variables :: "jsval \<Rightarrow> variables" where
  "list_error_variables details =
     [''error_title'' \<mapsto> JStr ''Agent List Failed'',
      ''error_message'' \<mapsto> JStr ''Unable to retrieve agent list'',
      ''error_details'' \<mapsto> details,
      ''error_code'' \<mapsto> JStr ''AGENT_LIST_ERROR'']"

definition generateSystemHealthDisplay :: "clock \<Rightarrow> string option \<Rightarrow> jsval action" where
  "generateSystemHealthDisplay clk clientId =
     try_catch
       (and_then (call_provider getSystemHealth ''getSystemHealth'') (\<lambda>health.
        and_then (call_provider getMetrics ''getMetrics'') (\<lambda>metrics.
        and_then (generateDisplayEvent clk ''display-metrics''
                    [''metrics_data'' \<mapsto> JObj [(''system_health'', health), (''metrics'', metrics)],
                     ''refresh_rate'' \<mapsto> JStr ''30s''] clientId) (\<lambda>event.
        and_then (sendEvent event clientId) (\<lambda>_.
        return_value event)))))
       (\<lambda>error.
        and_then (\<lambda>s. (message_of error, s)) (\<lambda>details.
        and_then (generateDisplayEvent clk ''display-error''
                    (health_error_variables details) clientId) (\<lambda>errorEvent.
        and_then (sendEvent errorEvent clientId) (\<lambda>_.
        return_value errorEvent))))"

definition generateAgentListDisplay :: "clock \<Rightarrow> string option \<Rightarrow> jsval action" where
  "generateAgentListDisplay clk clientId =
     try_catch
       (and_then (call_provider listAgents ''listAgents'') (\<lambda>agents.
        and_then (\<lambda>s. (agents_of agents, s)) (\<lambda>list.
        and_then (generateDisplayEvent clk ''display-agent-list''
                    [''agents_data'' \<mapsto> (if truthy list then list else JArr []),
                     ''total_agents'' \<mapsto> (if truthy list then length_of list else JNum 0)]
                    clientId) (\<lambda>event.
        and_then (sendEvent event clientId) (\<lambda>_.
        return_value event)))))
       (\<lambda>error.
        and_then (\<lambda>s. (message_of error, s)) (\<lambda>details.
        and_then (generateDisplayEvent clk ''display-error''
                    (list_error_variables details) clientId) (\<lambda>errorEvent.
        and_then (sendEvent errorEvent clientId) (\<lambda>_.
        return_value errorEvent))))"








text \<open>A collaborator whose providers answer: one agent, and small health and metrics
  objects. It has no delivery function.\<close>

definition answering_provider :: autoweave where
  "answering_provider =
     \<lparr>getSystemHealth = Inr (JObj [(''status'', JStr ''ok'')]),
      getMetrics = Inr (JObj [(''uptime'', JNum 12)]),
      listAgents = Inr (JObj [(''agents'', JArr [JObj [(''id'', JStr ''a1''),
                                                       (''name'', JStr ''helper'')]])]),
      sendAGUIEvent = None\<rparr>"

section \<open>Reading a field of a value\<close>

text \<open>
  A path of property accesses, \<^verbatim>\<open>v.key\<close> and \<^verbatim>\<open>v[i]\<close>, used to say which field of
  a template or an event a statement is about.
\<close>

datatype step = Key string | Index nat

fun get_path :: "jsval \<Rightarrow> step list \<Rightarrow> jsval option" where
  "get_path v [] = Some v"
| "get_path (JObj fs) (Key k # p) =
     (case map_of fs k of Some v \<Rightarrow> get_path v p | None \<Rightarrow> None)"
| "get_path (JArr xs) (Index i # p) = (if i < length xs then get_path (xs ! i) p else None)"
| "get_path v (st # p) = None"

text \<open>A name the regular expression can capture: a non-empty run of word characters.\<close>

definition word_name :: "string \<Rightarrow> bool" where
  "word_name name \<longleftrightarrow> name \<noteq> [] \<and> list_all is_word name"

text \<open>What the walk does to one property value.\<close>

definition walked :: "variables \<Rightarrow> jsval \<Rightarrow> jsval" where
  "walked vars v =
     (case v of
        JStr str \<Rightarrow> JStr (replaceStringVariables str vars)
      | JObj _ \<Rightarrow> replaceVariables v vars
      | JArr _ \<Rightarrow> replaceVariables v vars
      | _ \<Rightarrow> v)"

section \<open>Objects in a store\<close>

text \<open>
  Whether a generated event shares mutable state with its template cannot be asked of
  values alone, so \<^verbatim>\<open>processTemplate\<close> is modelled a second time over a store of
  mutable objects. An object is a cell holding its own properties in order (an array is a
  cell whose keys are its indices); a property value is a primitive or a reference to a
  cell. Allocation appends a cell, so a reference is an index into the store.
\<close>

datatype kind = PlainObject | ArrayObject

datatype hval = HUndefined | HNull | HBool bool | HNum int | HStr string | HRef nat

type_synonym cell = "kind \<times> (string \<times> hval) list"

type_synonym store = "cell list"

text \<open>A JSON-like document: what \<^verbatim>\<open>JSON.stringify\<close> sees of an object graph.\<close>

datatype tree =
    TUndefined
  | TNull
  | TBool bool
  | TNum int
  | TStr string
  | TNode kind "(string \<times> tree) list"

text \<open>
  Reading the object graph under a value. The number bounds the nesting depth: a graph
  with a cycle has no document (\<^verbatim>\<open>JSON.stringify\<close> throws on a circular structure), and
  neither has a dangling reference.
\<close>

fun snapshot :: "nat \<Rightarrow> store \<Rightarrow> hval \<Rightarrow> tree option" where
  "snapshot n h HUndefined = Some TUndefined"
| "snapshot n h HNull = Some TNull"
| "snapshot n h (HBool b) = Some (TBool b)"
| "snapshot n h (HNum i) = Some (TNum i)"
| "snapshot n h (HStr s) = Some (TStr s)"
| "snapshot 0 h (HRef a) = None"
| "snapshot (Suc n) h (HRef a) =
     (if a < length h then
        map_option (TNode (fst (h ! a)))
          (those (map (\<lambda>(key, v). map_option (Pair key) (snapshot n h v)) (snd (h ! a))))
      else None)"

text \<open>
  What survives \<^verbatim>\<open>JSON.stringify\<close>: an \<^verbatim>\<open>undefined\<close> property of an object is
  left out, an \<^verbatim>\<open>undefined\<close> element of an array becomes \<^verbatim>\<open>null\<close>.
\<close>

fun clone_tree :: "tree \<Rightarrow> tree" where
  "clone_tree (TNode PlainObject props) =
     TNode PlainObject
       (map (\<lambda>(key, v). (key, clone_tree v)) (filter (\<lambda>(key, v). v \<noteq> TUndefined) props))"
| "clone_tree (TNode ArrayObject props) =
     TNode ArrayObject
       (map (\<lambda>(key, v). (key, if v = TUndefined then TNull else clone_tree v)) props)"
| "clone_tree t = t"

text \<open>
  \<^verbatim>\<open>JSON.parse\<close>: every node of the document becomes a new cell. \<open>build t base\<close> gives
  the value for \<open>t\<close> and the cells to append when the store has \<open>base\<close> cells: the cells
  of the properties in order, then the cell of the node itself.
\<close>

fun build :: "tree \<Rightarrow> nat \<Rightarrow> hval \<times> cell list"
  and build_props :: "(string \<times> tree) list \<Rightarrow> nat \<Rightarrow> (string \<times> hval) list \<times> cell list" where
  "build TUndefined base = (HUndefined, [])"
| "build TNull base = (HNull, [])"
| "build (TBool b) base = (HBool b, [])"
| "build (TNum i) base = (HNum i, [])"
| "build (TStr s) base = (HStr s, [])"
| "build (TNode k props) base =
     (let (hprops, cells) = build_props props base
      in (HRef (base + length cells), cells @ [(k, hprops)]))"
| "build_props [] base = ([], [])"
| "build_props (p # props) base =
     (let (v, cells) = build (snd p) base;
          (hprops, cells') = build_props props (base + length cells)
      in ((fst p, v) # hprops, cells @ cells'))"

text \<open>
  \<^verbatim>\<open>replaceVariables(obj, variables)\<close> on the store, with \<open>obj\<close> the cell at \<open>a\<close>: for
  each own property in turn, a string is overwritten in the cell, a reference is walked,
  anything else is left. The number bounds the recursion depth (a cyclic graph would
  exhaust the stack).
\<close>

fun replaceVariablesH :: "nat \<Rightarrow> variables \<Rightarrow> nat \<Rightarrow> store \<Rightarrow> store option"
  and replace_props :: "nat \<Rightarrow> variables \<Rightarrow> nat \<Rightarrow> nat list \<Rightarrow> store \<Rightarrow> store option" where
  "replaceVariablesH 0 vars a h = None"
| "replaceVariablesH (Suc n) vars a h =
     (if a < length h then replace_props (Suc n) vars a [0..<length (snd (h ! a))] h else None)"
| "replace_props 0 vars a is h = None"
| "replace_props (Suc n) vars a [] h = Some h"
| "replace_props (Suc n) vars a (i # is) h =
     (if a < length h \<and> i < length (snd (h ! a)) then
        (case snd (snd (h ! a) ! i) of
           HStr str \<Rightarrow>
             replace_props (Suc n) vars a is
               (h[a := (fst (h ! a),
                        (snd (h ! a))[i := (fst (snd (h ! a) ! i),
                                            HStr (replaceStringVariables str vars))])])
         | HRef b \<Rightarrow>
             (case replaceVariablesH n vars b h of
                None \<Rightarrow> None
              | Some h' \<Rightarrow> replace_props (Suc n) vars a is h')
         | _ \<Rightarrow> replace_props (Suc n) vars a is h)
      else replace_props (Suc n) vars a is h)"

text \<open>
  \<^verbatim>\<open>processTemplate\<close> on the store: the template is the object at \<open>template\<close>; its
  document is parsed into new cells, which are then walked in place. The result is the
  reference to the copy and the new store; \<open>None\<close> stands for a throw.
\<close>

definition processTemplateH :: "variables \<Rightarrow> nat \<Rightarrow> store \<Rightarrow> (hval \<times> store) option" where
  "processTemplateH vars template h =
     (case snapshot (Suc (length h)) h (HRef template) of
        None \<Rightarrow> None
      | Some t \<Rightarrow>
          (let (v, cells) = build (clone_tree t) (length h);
               h1 = h @ cells
           in case v of
                HRef b \<Rightarrow> map_option (Pair v) (replaceVariablesH (Suc (length h1)) vars b h1)
              | _ \<Rightarrow> Some (v, h1)))"

text \<open>
  \<^verbatim>\<open>generateEvent\<close> on the store, from the template on:
  \<^verbatim>\<open>event.agui_metadata = { ... }\<close> makes one more cell, with the four primitive
  properties, and stores the reference to it in the cell of the event.
\<close>

definition metadata_cell :: "string \<Rightarrow> string \<Rightarrow> string option \<Rightarrow> cell" where
  "metadata_cell templateId generated_at clientId =
     (PlainObject,
      [(''generated_by'', HStr ''ui-agent''),
       (''template_id'', HStr templateId),
       (''generated_at'', HStr generated_at),
       (''client_id'', case clientId of None \<Rightarrow> HNull | Some c \<Rightarrow> HStr c)])"

definition generateEventH ::
  "variables \<Rightarrow> string \<Rightarrow> string \<Rightarrow> string option \<Rightarrow> nat \<Rightarrow> store \<Rightarrow> (hval \<times> store) option" where
  "generateEventH vars templateId generated_at clientId template h =
     (case processTemplateH vars template h of
        Some (HRef b, h1) \<Rightarrow>
          Some (HRef b,
                (h1 @ [metadata_cell templateId generated_at clientId])
                  [b := (fst (h1 ! b),
                         AList.update ''agui_metadata'' (HRef (length h1)) (snd (h1 ! b)))])
      | _ \<Rightarrow> None)"

text \<open>The same walk on documents.\<close>

fun replace_tree :: "variables \<Rightarrow> tree \<Rightarrow> tree" where
  "replace_tree vars (TStr str) = TStr (replaceStringVariables str vars)"
| "replace_tree vars (TNode k props) = TNode k (map (\<lambda>(key, v). (key, replace_tree vars v)) props)"
| "replace_tree vars t = t"

text \<open>The number of nodes of a document: the number of cells it is built into.\<close>

fun node_count :: "tree \<Rightarrow> nat" where
  "node_count (TNode k props) = Suc (sum_list (map (\<lambda>p. node_count (snd p)) props))"
| "node_count t = 0"

text \<open>The cells an object can reach through references.\<close>

inductive reaches :: "store \<Rightarrow> nat \<Rightarrow> nat \<Rightarrow> bool" for h :: store and a :: nat where
  reaches_self: "a < length h \<Longrightarrow> reaches h a a"
| reaches_step:
    "reaches h a b \<Longrightarrow> (key, HRef c) \<in> set (snd (h ! b)) \<Longrightarrow> c < length h \<Longrightarrow> reaches h a c"

text \<open>A store in which every reference points to a cell.\<close>

definition closed :: "store \<Rightarrow> bool" where
  "closed h \<longleftrightarrow> (\<forall>cell \<in> set h. \<forall>p \<in> set (snd cell). \<forall>r. snd p = HRef r \<longrightarrow> r < length h)"

text \<open>The document of what a call of \<^verbatim>\<open>processTemplate\<close> returned.\<close>

definition event_document :: "(hval \<times> store) option \<Rightarrow> tree option" where
  "event_document r = (case r of None \<Rightarrow> None | Some (v, h) \<Rightarrow> snapshot (Suc (length h)) h v)"

text \<open>
  The document of a value: an object keeps its keys, an array gets its indices as keys.
\<close>

fun to_tree :: "jsval \<Rightarrow> tree" where
  "to_tree JUndefined = TUndefined"
| "to_tree JNull = TNull"
| "to_tree (JBool b) = TBool b"
| "to_tree (JNum i) = TNum i"
| "to_tree (JStr s) = TStr s"
| "to_tree (JArr xs) = TNode ArrayObject (zip (map show_nat [0..<length xs]) (map to_tree xs))"
| "to_tree (JObj fs) = TNode PlainObject (map (\<lambda>(key, v). (key, to_tree v)) fs)"

section \<open>Evaluation and helper lemmas\<close>

lemma show_nat_digit [simp]: "n < 10 \<Longrightarrow> show_nat n = [''0123456789'' ! n]"
  by (simp add: show_nat.simps)

lemma show_nat_step [simp]:
  "10 \<le> n \<Longrightarrow> show_nat n = show_nat (n div 10) @ [''0123456789'' ! (n mod 10)]"
  by (subst show_nat.simps) simp

lemmas run_defs = generateEvent_def defaultVariables_def getSessionId_def now_def
  processTemplate_def mergedVariables_def match_placeholder_def is_word_def replacer_def
  object_prototype_def client_id_value_def addCustomTemplate_def constructor_def
  sample_clock_def

lemmas flow_defs = and_then_def try_catch_def return_value_def sendEvent_def
  call_provider_def generateChatEvent_def generateDisplayEvent_def

subsection \<open>Matching and substitution in a string\<close>

lemma not_word_braces [simp]: "\<not> is_word CHR ''{''" "\<not> is_word CHR ''}''"
  by (simp_all add: is_word_def)

lemma take2_eq: "take 2 s = [a, b] \<longleftrightarrow> (\<exists>t. s = a # b # t)"
  by (cases s; cases "tl s") auto

lemma match_placeholder_Some_iff:
  "match_placeholder s = Some (name, rest) \<longleftrightarrow>
     word_name name \<and> s = ''{{'' @ name @ ''}}'' @ rest"
proof
  assume m: "match_placeholder s = Some (name, rest)"
  then obtain t where s: "s = CHR ''{'' # CHR ''{'' # t"
    by (auto simp: match_placeholder_def take2_eq split: if_splits)
  from m s have n: "name = takeWhile is_word t" "name \<noteq> []"
    and "take 2 (dropWhile is_word t) = ''}}''" and r: "rest = drop 2 (dropWhile is_word t)"
    by (auto simp: match_placeholder_def Let_def split: if_splits)
  then have "dropWhile is_word t = ''}}'' @ rest"
    by (metis append_take_drop_id)
  then have "t = name @ ''}}'' @ rest"
    using n(1) by (metis takeWhile_dropWhile_id)
  moreover have "list_all is_word name"
    unfolding n(1) list_all_iff by (auto dest: set_takeWhileD)
  ultimately show "word_name name \<and> s = ''{{'' @ name @ ''}}'' @ rest"
    using s n(2) by (simp add: word_name_def)
next
  assume a: "word_name name \<and> s = ''{{'' @ name @ ''}}'' @ rest"
  then have w: "\<forall>c\<in>set name. is_word c" and ne: "name \<noteq> []"
    by (auto simp: word_name_def list_all_iff)
  from w have "takeWhile is_word (name @ ''}}'' @ rest) = name"
    and "dropWhile is_word (name @ ''}}'' @ rest) = ''}}'' @ rest"
    by simp_all
  with a ne show "match_placeholder s = Some (name, rest)"
    by (simp add: match_placeholder_def)
qed

lemma match_placeholder_append:
  assumes "match_placeholder s = Some (name, rest)"
  shows "match_placeholder (s @ t) = Some (name, rest @ t)"
  using assms by (simp add: match_placeholder_Some_iff)

lemma match_placeholder_None_append:
  assumes "match_placeholder s = None" and "s \<noteq> []"
  shows "match_placeholder (s @ ''{{'' @ t) = None"
proof (rule ccontr)
  assume "match_placeholder (s @ ''{{'' @ t) \<noteq> None"
  then obtain name rest where "match_placeholder (s @ ''{{'' @ t) = Some (name, rest)"
    by auto
  then have w: "word_name name" and e: "s @ ''{{'' @ t = ''{{'' @ name @ ''}}'' @ rest"
    by (simp_all add: match_placeholder_Some_iff)
  from w have ne: "name \<noteq> []" and nb: "CHR ''{'' \<notin> set name"
    by (auto simp: word_name_def list_all_iff)
  from assms(1) w have nomatch: "\<And>r. s \<noteq> ''{{'' @ name @ ''}}'' @ r"
    using match_placeholder_Some_iff [of s name] by auto
  show False
  proof (cases s)
    case Nil
    with assms(2) show False by simp
  next
    case (Cons c1 s1)
    show False
    proof (cases s1)
      case Nil
      with Cons e have "CHR ''{'' # t = name @ ''}}'' @ rest" by simp
      with ne nb show False by (cases name) auto
    next
      case (Cons c2 s')
      with \<open>s = c1 # s1\<close> e have s: "s = ''{{'' @ s'"
        and e': "s' @ ''{{'' @ t = name @ ''}}'' @ rest" by simp_all
      from e' obtain us where
        "(s' = name @ us \<and> us @ ''{{'' @ t = ''}}'' @ rest)
         \<or> (s' @ us = name \<and> ''{{'' @ t = us @ ''}}'' @ rest)"
        unfolding append_eq_append_conv2 by blast
      then show False
      proof
        assume a: "s' = name @ us \<and> us @ ''{{'' @ t = ''}}'' @ rest"
        then obtain r where "us = ''}}'' @ r"
          by (cases us; cases "tl us") auto
        with a s nomatch [of r] show False by simp
      next
        assume a: "s' @ us = name \<and> ''{{'' @ t = us @ ''}}'' @ rest"
        then have "us = [] \<or> hd us = CHR ''{''" by (cases us) auto
        with a nb show False by (cases us) auto
      qed
    qed
  qed
qed

lemma replaceStringVariables_before_braces:
  assumes u: "u = ''{{'' @ t"
  shows "replaceStringVariables (pre @ u) vars =
     replaceStringVariables pre vars @ replaceStringVariables u vars"
proof (induction pre vars rule: replaceStringVariables.induct)
  case (1 vars)
  show ?case by simp
next
  case (2 c cs vars)
  show ?case
  proof (cases "match_placeholder (c # cs)")
    case None
    then have "match_placeholder ((c # cs) @ ''{{'' @ t) = None"
      by (rule match_placeholder_None_append) simp
    then have "match_placeholder (c # cs @ u) = None"
      by (simp add: u)
    with None 2 show ?thesis by simp
  next
    case (Some m)
    obtain name rest where m: "m = (name, rest)" by (cases m)
    with Some have "match_placeholder ((c # cs) @ u) = Some (name, rest @ u)"
      using match_placeholder_append [of "c # cs" name rest u] by simp
    with Some m 2 show ?thesis by simp
  qed
qed

lemma replaceStringVariables_no_brace:
  "CHR ''{'' \<notin> set u \<Longrightarrow>
     replaceStringVariables (u @ t) vars = u @ replaceStringVariables t vars"
proof (induction u)
  case Nil
  show ?case by simp
next
  case (Cons c u)
  then have "match_placeholder (c # u @ t) = None"
    by (auto simp: match_placeholder_def take2_eq)
  with Cons show ?case by simp
qed

lemma replaceStringVariables_placeholder:
  assumes "word_name name"
  shows "replaceStringVariables (pre @ ''{{'' @ name @ ''}}'' @ post) vars =
     replaceStringVariables pre vars @ replacer vars name @ replaceStringVariables post vars"
proof -
  have "match_placeholder (''{{'' @ name @ ''}}'' @ post) = Some (name, post)"
    using assms by (simp add: match_placeholder_Some_iff)
  then have "replaceStringVariables (''{{'' @ name @ ''}}'' @ post) vars =
      replacer vars name @ replaceStringVariables post vars"
    by simp
  then show ?thesis
    using replaceStringVariables_before_braces
      [of "''{{'' @ name @ ''}}'' @ post" "name @ ''}}'' @ post" pre vars]
    by simp
qed


lemma replaceStringVariables_ignores_non_word:
  assumes "\<not> list_all is_word name"
  shows "replaceStringVariables str (vars(name := x)) = replaceStringVariables str vars"
proof (induction str vars rule: replaceStringVariables.induct)
  case (1 vars)
  show ?case by simp
next
  case (2 c cs vars)
  show ?case
  proof (cases "match_placeholder (c # cs)")
    case None
    with 2 show ?thesis by simp
  next
    case (Some m)
    obtain n rest where m: "m = (n, rest)" by (cases m)
    with Some have "word_name n" by (simp add: match_placeholder_Some_iff)
    with assms have "n \<noteq> name" by (auto simp: word_name_def)
    with Some m 2 show ?thesis by (simp add: replacer_def)
  qed
qed

lemma replaceStringVariables_verbatim:
  assumes nw: "\<not> list_all is_word name"
    and nb: "CHR ''{'' \<notin> set name" "CHR ''}'' \<notin> set name"
  shows "replaceStringVariables (pre @ ''{{'' @ name @ ''}}'' @ post) vars =
           replaceStringVariables pre vars @ ''{{'' @ name @ ''}}''
             @ replaceStringVariables post vars"
proof -
  from nw obtain x where x: "x \<in> set name" "\<not> is_word x"
    by (auto simp: list_all_iff)
  then have ne: "name \<noteq> []" by auto
  have "match_placeholder (''{{'' @ name @ ''}}'' @ post) = None"
  proof (rule ccontr)
    assume "match_placeholder (''{{'' @ name @ ''}}'' @ post) \<noteq> None"
    then obtain n r where "match_placeholder (''{{'' @ name @ ''}}'' @ post) = Some (n, r)"
      by auto
    then have w: "word_name n" and e: "name @ ''}}'' @ post = n @ ''}}'' @ r"
      by (simp_all add: match_placeholder_Some_iff)
    from e obtain us where
      "(name = n @ us \<and> us @ ''}}'' @ post = ''}}'' @ r) \<or> (name @ us = n \<and> ''}}'' @ post = us @ ''}}'' @ r)"
      unfolding append_eq_append_conv2 by blast
    then show False
    proof
      assume a: "name = n @ us \<and> us @ ''}}'' @ post = ''}}'' @ r"
      show False
      proof (cases us)
        case Nil
        with a w nw show False by (simp add: word_name_def)
      next
        case (Cons u us')
        with a have "u = CHR ''}''" by simp
        with a Cons nb show False by simp
      qed
    next
      assume a: "name @ us = n \<and> ''}}'' @ post = us @ ''}}'' @ r"
      with w x show False by (auto simp: word_name_def list_all_iff)
    qed
  qed
  then have 1: "replaceStringVariables (''{{'' @ name @ ''}}'' @ post) vars =
      CHR ''{'' # replaceStringVariables (''{'' @ name @ ''}}'' @ post) vars"
    by simp
  from ne nb have "match_placeholder (''{'' @ name @ ''}}'' @ post) = None"
    by (cases name) (auto simp: match_placeholder_def)
  then have 2: "replaceStringVariables (''{'' @ name @ ''}}'' @ post) vars =
      CHR ''{'' # replaceStringVariables ((name @ ''}}'') @ post) vars"
    by simp
  from nb have "CHR ''{'' \<notin> set (name @ ''}}'')" by simp
  then have 3: "replaceStringVariables ((name @ ''}}'') @ post) vars =
      (name @ ''}}'') @ replaceStringVariables post vars"
    by (rule replaceStringVariables_no_brace)
  have "replaceStringVariables (pre @ ''{{'' @ name @ ''}}'' @ post) vars =
      replaceStringVariables pre vars @ replaceStringVariables (''{{'' @ name @ ''}}'' @ post) vars"
    by (rule replaceStringVariables_before_braces [where t = "name @ ''}}'' @ post"]) simp
  with 1 2 3 show ?thesis by simp
qed

subsection \<open>The walk and the clone along a path\<close>

lemma replaceVariables_JObj:
  "replaceVariables (JObj fs) vars = JObj (map (\<lambda>(key, v). (key, walked vars v)) fs)"
  by (simp add: walked_def)

lemma replaceVariables_JArr:
  "replaceVariables (JArr xs) vars = JArr (map (walked vars) xs)"
  by (simp add: walked_def)

lemma get_path_walked:
  "get_path v p = Some (JStr str) \<Longrightarrow>
     get_path (walked vars v) p = Some (JStr (replaceStringVariables str vars))"
proof (induction v p rule: get_path.induct)
  case (1 v)
  then show ?case by (simp add: walked_def)
next
  case (2 fs k p)
  then show ?case
    by (auto simp: walked_def replaceVariables_JObj map_of_map simp del: replaceVariables.simps
        split: option.splits)
next
  case (3 xs i p)
  then show ?case
    by (auto simp: walked_def replaceVariables_JArr simp del: replaceVariables.simps
        split: if_splits)
qed simp_all

lemma get_path_defined: "get_path v p = Some (JStr str) \<Longrightarrow> v \<noteq> JUndefined"
  by (cases p) auto

lemma get_path_json_clone:
  "get_path v p = Some (JStr str) \<Longrightarrow> get_path (json_clone v) p = Some (JStr str)"
proof (induction v p rule: get_path.induct)
  case (1 v)
  then show ?case by simp
next
  case (2 fs k p)
  then obtain w where w: "map_of fs k = Some w" "get_path w p = Some (JStr str)"
    by (auto split: option.splits)
  then have "w \<noteq> JUndefined" by (auto dest: get_path_defined)
  with w(1) have "map_of (filter (\<lambda>(key, v). v \<noteq> JUndefined) fs) k = Some w"
    by (rule map_of_filter_in)
  with w 2 show ?case by (simp add: map_of_map)
next
  case (3 xs i p)
  then show ?case by (auto split: if_splits dest: get_path_defined)
qed simp_all

lemma get_path_processTemplate:
  assumes "get_path (JObj template) p = Some (JStr str)"
  shows "get_path (processTemplate template vars) p =
           Some (JStr (replaceStringVariables str vars))"
proof -
  have "get_path (json_clone (JObj template)) p = Some (JStr str)"
    using assms by (rule get_path_json_clone)
  then have "get_path (walked vars (json_clone (JObj template))) p =
      Some (JStr (replaceStringVariables str vars))"
    by (rule get_path_walked)
  then show ?thesis
    by (simp add: processTemplate_def walked_def)
qed

lemma get_path_set_property:
  assumes "p \<noteq> []" and "hd p \<noteq> Key key"
  shows "get_path (set_property obj key v) p = get_path obj p"
proof (cases p)
  case Nil
  with assms show ?thesis by simp
next
  case (Cons st p')
  with assms have "st \<noteq> Key key" by simp
  then show ?thesis
    unfolding Cons by (cases obj; cases st) (auto simp: update_conv')
qed

subsection \<open>Fields of a generated event\<close>

lemma generateEvent_field:
  assumes "eventTemplates s templateId = Some template"
    and "get_path (JObj template) p = Some (JStr str)"
    and "hd p \<noteq> Key ''agui_metadata''"
  shows "\<exists>event. fst (generateEvent clk templateId vars clientId s) = Inr event
           \<and> get_path event p =
               Some (JStr (replaceStringVariables str
                 (mergedVariables (fst (defaultVariables clk clientId s)) vars)))"
proof -
  from assms(2) have ne: "p \<noteq> []" by (cases p) auto
  obtain defaults s1 where d: "defaultVariables clk clientId s = (defaults, s1)"
    by (cases "defaultVariables clk clientId s")
  obtain t s2 where n: "now clk s1 = (t, s2)" by (cases "now clk s1")
  let ?meta = "JObj [(''generated_by'', JStr ''ui-agent''),
                     (''template_id'', JStr templateId),
                     (''generated_at'', JStr (iso t)),
                     (''client_id'', client_id_value clientId)]"
  let ?event = "set_property (processTemplate template (mergedVariables defaults vars))
                  ''agui_metadata'' ?meta"
  have g: "fst (generateEvent clk templateId vars clientId s) = Inr ?event"
    using assms(1) d n by (simp add: generateEvent_def)
  have "get_path ?event p = get_path (processTemplate template (mergedVariables defaults vars)) p"
    using ne assms(3) by (rule get_path_set_property)
  also have "\<dots> = Some (JStr (replaceStringVariables str (mergedVariables defaults vars)))"
    using assms(2) by (rule get_path_processTemplate)
  finally show ?thesis using g d by simp
qed


subsection \<open>Session lookups\<close>

lemma getSessionId_hit:
  assumes "c \<noteq> []" and "activeSessions s c = Some r"
  shows "getSessionId clk (Some c) s =
           (session_id r,
            s\<lparr>clock_reads := Suc (clock_reads s),
              activeSessions := (activeSessions s)(c \<mapsto> r\<lparr>last_activity := iso (clk (clock_reads s))\<rparr>)\<rparr>)"
  using assms by (simp add: getSessionId_def now_def)

lemma getSessionId_miss:
  assumes "c \<noteq> []" and "activeSessions s c = None"
  shows "getSessionId clk (Some c) s =
           (''session-'' @ c @ ''-'' @ show_nat (millis (clk (clock_reads s))),
            s\<lparr>clock_reads := clock_reads s + 4,
              activeSessions := (activeSessions s)(c \<mapsto>
                \<lparr>session_id = ''session-'' @ c @ ''-'' @ show_nat (millis (clk (clock_reads s))),
                 created_at = iso (clk (clock_reads s + 1)),
                 last_activity = iso (clk (clock_reads s + 3))\<rparr>)\<rparr>)"
  using assms by (simp add: getSessionId_def now_def eval_nat_numeral)

lemma getSessionId_no_client:
  assumes "clientId = None \<or> clientId = Some []"
  shows "getSessionId clk clientId s =
           (''session-'' @ show_nat (millis (clk (clock_reads s))),
            s\<lparr>clock_reads := Suc (clock_reads s)\<rparr>)"
  using assms by (auto simp: getSessionId_def now_def)

lemma getSessionId_stored:
  assumes "c \<noteq> []"
  shows "\<exists>r. activeSessions (snd (getSessionId clk (Some c) s)) c = Some r
           \<and> session_id r = fst (getSessionId clk (Some c) s)"
  using assms by (cases "activeSessions s c") (simp_all add: getSessionId_hit getSessionId_miss)

lemma generateEvent_state:
  assumes "eventTemplates s templateId = Some template"
  shows "snd (generateEvent clk templateId vars clientId s) =
           (let s2 = snd (getSessionId clk clientId (snd (now clk s)))
            in s2\<lparr>clock_reads := Suc (clock_reads s2)\<rparr>)"
  using assms
  by (simp add: generateEvent_def defaultVariables_def now_def Let_def split: prod.splits)

lemma defaultVariables_session_id:
  "fst (defaultVariables clk clientId s) ''session_id'' =
     Some (JStr (fst (getSessionId clk clientId (snd (now clk s)))))"
proof -
  obtain t s1 where n: "now clk s = (t, s1)" by (cases "now clk s")
  obtain sid s2 where g: "getSessionId clk clientId s1 = (sid, s2)"
    by (cases "getSessionId clk clientId s1")
  from n g show ?thesis by (simp add: defaultVariables_def)
qed

subsection \<open>The flows\<close>





lemma sendEvent_state: "snd (sendEvent event clientId s) = s"
  by (simp add: sendEvent_def split: option.splits collaborator.splits)

section \<open>Lemmas on the store\<close>

lemma build_cells_length:
  "length (snd (build t base)) = node_count t"
  "length (snd (build_props ps base)) = sum_list (map (\<lambda>p. node_count (snd p)) ps)"
  by (induction t base and ps base rule: build_build_props.induct)
     (auto split: prod.splits)

lemma node_count_replace_tree: "node_count (replace_tree vars t) = node_count t"
proof (induction t)
  case (TNode k props)
  have "node_count (replace_tree vars (snd p)) = node_count (snd p)" if "p \<in> set props" for p
    using TNode [of p "snd p"] that by (cases p) simp
  then have "map (\<lambda>p. node_count (snd (case p of (key, v) \<Rightarrow> (key, replace_tree vars v)))) props =
      map (\<lambda>p. node_count (snd p)) props"
    by (intro map_cong) (auto simp: case_prod_beta)
  then have "sum_list (map (\<lambda>p. node_count (snd (case p of (key, v) \<Rightarrow> (key, replace_tree vars v)))) props) =
      sum_list (map (\<lambda>p. node_count (snd p)) props)"
    by (rule arg_cong)
  then show ?case by (simp only: replace_tree.simps node_count.simps map_map comp_def)
qed simp_all

lemma build_node:
  "build (TNode k props) base =
     (HRef (base + length (snd (build_props props base))),
      snd (build_props props base) @ [(k, fst (build_props props base))])"
  by (simp add: case_prod_beta Let_def)

lemma build_props_Cons:
  "build_props (p # props) base =
     ((fst p, fst (build (snd p) base)) # fst (build_props props (base + node_count (snd p))),
      snd (build (snd p) base) @ snd (build_props props (base + node_count (snd p))))"
  by (simp add: case_prod_beta Let_def build_cells_length)

lemma build_props_length: "length (fst (build_props ps base)) = length ps"
  by (induction ps arbitrary: base) (simp_all add: build_props_Cons del: build_props.simps(2))

lemma build_ref:
  "fst (build t base) = HRef b \<Longrightarrow> \<exists>k props. t = TNode k props \<and> b = base + node_count t - 1"
  by (cases t) (auto simp: build_node build_cells_length simp del: build.simps(6))

lemma build_replace_tree_fst:
  "fst (build (replace_tree vars t) base) =
     (case fst (build t base) of
        HStr str \<Rightarrow> HStr (replaceStringVariables str vars)
      | v \<Rightarrow> v)"
proof (cases t)
  case (TNode k props)
  have "node_count (replace_tree vars t) = node_count t"
    by (rule node_count_replace_tree)
  then show ?thesis
    unfolding TNode by (simp add: build_node build_cells_length del: build.simps(6))
qed simp_all

lemma replace_props_built:
  assumes IH: "\<And>p base pre post m b. p \<in> set todo \<Longrightarrow> fst (build (snd p) base) = HRef b \<Longrightarrow>
      length pre = base \<Longrightarrow> node_count (snd p) \<le> m \<Longrightarrow>
      replaceVariablesH m vars b (pre @ snd (build (snd p) base) @ post) =
        Some (pre @ snd (build (replace_tree vars (snd p)) base) @ post)"
    and "length pre = base"
    and "sum_list (map (\<lambda>p. node_count (snd p)) todo) \<le> n"
    and "length hdone = i"
  shows "replace_props (Suc n) vars (base + length (snd (build_props todo base)))
           [i ..< i + length todo]
           (pre @ snd (build_props todo base)
              @ (k, hdone @ fst (build_props todo base)) # post)
         = Some (pre @ snd (build_props (map (\<lambda>(key, v). (key, replace_tree vars v)) todo) base)
              @ (k, hdone @ fst (build_props (map (\<lambda>(key, v). (key, replace_tree vars v)) todo) base))
              # post)"
  using assms
proof (induction todo arbitrary: pre base hdone i)
  case Nil
  then show ?case by simp
next
  case (Cons p rest)
  let ?W = "\<lambda>(key, v). (key, replace_tree vars v)"
  let ?v = "fst (build (snd p) base)"
  let ?cv = "snd (build (snd p) base)"
  let ?v' = "fst (build (replace_tree vars (snd p)) base)"
  let ?cv' = "snd (build (replace_tree vars (snd p)) base)"
  let ?base2 = "base + node_count (snd p)"
  let ?hrest = "fst (build_props rest ?base2)"
  let ?crest = "snd (build_props rest ?base2)"
  let ?hrest' = "fst (build_props (map ?W rest) ?base2)"
  let ?crest' = "snd (build_props (map ?W rest) ?base2)"
  let ?a = "base + length (?cv @ ?crest)"
  let ?H = "pre @ (?cv @ ?crest) @ (k, hdone @ (fst p, ?v) # ?hrest) # post"
  have lcv: "length ?cv = node_count (snd p)" "length ?cv' = node_count (snd p)"
    by (simp_all add: build_cells_length node_count_replace_tree)
  have lcrest: "length ?crest' = length ?crest"
    by (simp add: build_cells_length comp_def case_prod_beta node_count_replace_tree)
  have bounds: "node_count (snd p) \<le> n" "sum_list (map (\<lambda>p. node_count (snd p)) rest) \<le> n"
    using Cons.prems(3) by simp_all
  have a: "?a = length (pre @ ?cv @ ?crest)"
    using Cons.prems(2) by simp
  have Ha: "?H ! ?a = (k, hdone @ (fst p, ?v) # ?hrest)" "?a < length ?H"
    unfolding a by (simp_all add: nth_append)
  have Hi: "(hdone @ (fst p, ?v) # ?hrest) ! i = (fst p, ?v)" "i < length (hdone @ (fst p, ?v) # ?hrest)"
    using Cons.prems(4) by (auto simp: nth_append)
  have upt: "[i ..< i + length (p # rest)] = i # [Suc i ..< Suc i + length rest]"
  proof -
    have "i < i + length (p # rest)" by simp
    then have "[i ..< i + length (p # rest)] = i # [Suc i ..< i + length (p # rest)]"
      by (rule upt_conv_Cons)
    moreover have "i + length (p # rest) = Suc i + length rest" by simp
    ultimately show ?thesis by (simp only:)
  qed
  \<comment> \<open>the state after the property \<open>p\<close>\<close>
  let ?H1 = "(pre @ ?cv') @ ?crest @ (k, (hdone @ [(fst p, ?v')]) @ ?hrest) # post"
  have rest_step: "replace_props (Suc n) vars ?a [Suc i ..< Suc i + length rest] ?H1 =
      Some ((pre @ ?cv') @ ?crest' @ (k, (hdone @ [(fst p, ?v')]) @ ?hrest') # post)"
  proof -
    have "replace_props (Suc n) vars (?base2 + length ?crest) [Suc i ..< Suc i + length rest] ?H1 =
      Some ((pre @ ?cv') @ ?crest' @ (k, (hdone @ [(fst p, ?v')]) @ ?hrest') # post)"
    proof (rule Cons.IH)
      show "length (pre @ ?cv') = ?base2" using Cons.prems(2) lcv by simp
      show "sum_list (map (\<lambda>p. node_count (snd p)) rest) \<le> n" by (rule bounds)
      show "length (hdone @ [(fst p, ?v')]) = Suc i" using Cons.prems(4) by simp
    next
      fix q :: "string \<times> tree" and base :: nat and pre post :: store and m b :: nat
      assume "q \<in> set rest" "fst (build (snd q) base) = HRef b" "length pre = base"
        "node_count (snd q) \<le> m"
      then show "replaceVariablesH m vars b (pre @ snd (build (snd q) base) @ post) =
        Some (pre @ snd (build (replace_tree vars (snd q)) base) @ post)"
        using Cons.prems(1) [of q base b pre m post] by simp
    qed
    moreover have "?a = ?base2 + length ?crest" using lcv by simp
    ultimately show ?thesis by (simp only:)
  qed
  have final: "(pre @ ?cv') @ ?crest' @ (k, (hdone @ [(fst p, ?v')]) @ ?hrest') # post =
      pre @ snd (build_props (map ?W (p # rest)) base)
        @ (k, hdone @ fst (build_props (map ?W (p # rest)) base)) # post"
    by (simp add: build_props_Cons case_prod_beta node_count_replace_tree del: build_props.simps(2))
  have start: "pre @ snd (build_props (p # rest) base)
      @ (k, hdone @ fst (build_props (p # rest) base)) # post = ?H"
    "base + length (snd (build_props (p # rest) base)) = ?a"
    by (simp_all add: build_props_Cons del: build_props.simps(2))
  have step: "replace_props (Suc n) vars ?a (i # [Suc i ..< Suc i + length rest]) ?H =
      replace_props (Suc n) vars ?a [Suc i ..< Suc i + length rest] ?H1"
  proof (cases "snd p")
    case (TStr str)
    then have v: "?v = HStr str" "?cv = []" "?v' = HStr (replaceStringVariables str vars)" "?cv' = []"
      by simp_all
    have "?H[?a := (k, (hdone @ (fst p, ?v) # ?hrest)[i := (fst p, HStr (replaceStringVariables str vars))])] = ?H1"
      unfolding a using Cons.prems(4) by (simp add: v list_update_append)
    then show ?thesis
      using Ha Hi v by (simp del: build.simps build_props.simps)
  next
    case (TNode k' props)
    then obtain b where b: "?v = HRef b" by (simp add: build_node del: build.simps(6))
    have "replaceVariablesH n vars b ((pre) @ ?cv @ (?crest @ (k, hdone @ (fst p, ?v) # ?hrest) # post)) =
        Some (pre @ ?cv' @ (?crest @ (k, hdone @ (fst p, ?v) # ?hrest) # post))"
      using Cons.prems(1) [of p base b pre n] b Cons.prems(2) bounds(1) by simp
    moreover have "?v' = ?v"
      using b by (simp add: build_replace_tree_fst)
    ultimately have "replaceVariablesH n vars b ?H = Some ?H1"
      by simp
    then show ?thesis
      using Ha Hi b by (simp del: build.simps build_props.simps)
  next
    case TUndefined
    then have v: "?v = HUndefined" "?cv = []" "?v' = HUndefined" "?cv' = []" by simp_all
    have "?H = ?H1" by (simp add: v)
    then show ?thesis using Ha Hi v by (simp del: build.simps build_props.simps)
  next
    case TNull
    then have v: "?v = HNull" "?cv = []" "?v' = HNull" "?cv' = []" by simp_all
    have "?H = ?H1" by (simp add: v)
    then show ?thesis using Ha Hi v by (simp del: build.simps build_props.simps)
  next
    case (TBool x)
    then have v: "?v = HBool x" "?cv = []" "?v' = HBool x" "?cv' = []" by simp_all
    have "?H = ?H1" by (simp add: v)
    then show ?thesis using Ha Hi v by (simp del: build.simps build_props.simps)
  next
    case (TNum x)
    then have v: "?v = HNum x" "?cv = []" "?v' = HNum x" "?cv' = []" by simp_all
    have "?H = ?H1" by (simp add: v)
    then show ?thesis using Ha Hi v by (simp del: build.simps build_props.simps)
  qed
  show ?case
    unfolding start upt step rest_step final ..
qed

lemma replaceVariablesH_built:
  "fst (build t base) = HRef b \<Longrightarrow> length pre = base \<Longrightarrow> node_count t \<le> m \<Longrightarrow>
     replaceVariablesH m vars b (pre @ snd (build t base) @ post) =
       Some (pre @ snd (build (replace_tree vars t) base) @ post)"
proof (induction t arbitrary: base pre post m b)
  case (TNode k props)
  let ?W = "\<lambda>(key, v). (key, replace_tree vars v)"
  let ?cells = "snd (build_props props base)"
  let ?hprops = "fst (build_props props base)"
  let ?H = "pre @ ?cells @ (k, [] @ ?hprops) # post"
  from TNode.prems(3) obtain n where m: "m = Suc n"
    and n: "sum_list (map (\<lambda>p. node_count (snd p)) props) \<le> n"
    by (cases m) auto
  from TNode.prems(1) have b: "b = base + length ?cells"
    by (simp add: build_node del: build.simps(6))
  have bl: "b = length (pre @ ?cells)" using b TNode.prems(2) by simp
  have Hb: "b < length ?H" "snd (?H ! b) = ?hprops"
    unfolding bl by (simp_all add: nth_append)
  have loop: "replace_props (Suc n) vars (base + length ?cells) [0 ..< 0 + length props] ?H =
      Some (pre @ snd (build_props (map ?W props) base)
              @ (k, [] @ fst (build_props (map ?W props) base)) # post)"
  proof (rule replace_props_built)
    show "length pre = base" by (rule TNode.prems(2))
    show "sum_list (map (\<lambda>p. node_count (snd p)) props) \<le> n" by (rule n)
    show "length ([] :: (string \<times> hval) list) = 0" by simp
  next
    fix p :: "string \<times> tree" and base :: nat and pre post :: store and m b :: nat
    assume p: "p \<in> set props" "fst (build (snd p) base) = HRef b" "length pre = base"
      "node_count (snd p) \<le> m"
    have "snd p \<in> Basic_BNFs.snds p"
      by (metis prod.collapse snds.intros)
    then show "replaceVariablesH m vars b (pre @ snd (build (snd p) base) @ post) =
        Some (pre @ snd (build (replace_tree vars (snd p)) base) @ post)"
      using p by (intro TNode.IH [of p "snd p"])
  qed
  have "replaceVariablesH m vars b ?H = replace_props (Suc n) vars b [0 ..< length ?hprops] ?H"
    unfolding m using Hb by simp
  also have "\<dots> = replace_props (Suc n) vars (base + length ?cells) [0 ..< 0 + length props] ?H"
    by (simp add: b build_props_length)
  also note loop
  finally show ?case
    by (simp add: build_node del: build.simps(6))
qed simp_all

lemma snapshot_props_built:
  assumes IH: "\<And>p base pre post n. p \<in> set props \<Longrightarrow> length pre = base \<Longrightarrow>
      node_count (snd p) \<le> n \<Longrightarrow>
      snapshot n (pre @ snd (build (snd p) base) @ post) (fst (build (snd p) base)) = Some (snd p)"
    and "length pre = base"
    and "sum_list (map (\<lambda>p. node_count (snd p)) props) \<le> n"
  shows "those (map (\<lambda>(key, v). map_option (Pair key)
                       (snapshot n (pre @ snd (build_props props base) @ post) v))
                 (fst (build_props props base))) = Some props"
  using assms
proof (induction props arbitrary: pre base)
  case Nil
  then show ?case by simp
next
  case (Cons p rest)
  let ?cv = "snd (build (snd p) base)"
  let ?base2 = "base + node_count (snd p)"
  let ?crest = "snd (build_props rest ?base2)"
  have 1: "snapshot n (pre @ ?cv @ (?crest @ post)) (fst (build (snd p) base)) = Some (snd p)"
    using Cons.prems by (intro Cons.prems(1)) simp_all
  have 2: "those (map (\<lambda>(key, v). map_option (Pair key)
                       (snapshot n ((pre @ ?cv) @ ?crest @ post) v))
                 (fst (build_props rest ?base2))) = Some rest"
  proof (rule Cons.IH)
    show "length (pre @ ?cv) = ?base2"
      using Cons.prems(2) by (simp add: build_cells_length)
    show "sum_list (map (\<lambda>p. node_count (snd p)) rest) \<le> n"
      using Cons.prems(3) by simp
  next
    fix q :: "string \<times> tree" and base :: nat and pre post :: store and n :: nat
    assume "q \<in> set rest" "length pre = base" "node_count (snd q) \<le> n"
    then show "snapshot n (pre @ snd (build (snd q) base) @ post) (fst (build (snd q) base)) =
        Some (snd q)"
      by (intro Cons.prems(1)) simp_all
  qed
  show ?case
    using 1 2 by (simp add: build_props_Cons del: build_props.simps(2))
qed

lemma snapshot_built:
  "length pre = base \<Longrightarrow> node_count t \<le> n \<Longrightarrow>
     snapshot n (pre @ snd (build t base) @ post) (fst (build t base)) = Some t"
proof (induction t arbitrary: base pre post n)
  case (TNode k props)
  let ?cells = "snd (build_props props base)"
  let ?hprops = "fst (build_props props base)"
  let ?H = "pre @ ?cells @ (k, ?hprops) # post"
  from TNode.prems(2) obtain m where n: "n = Suc m"
    and m: "sum_list (map (\<lambda>p. node_count (snd p)) props) \<le> m"
    by (cases n) auto
  have bl: "base + length ?cells = length (pre @ ?cells)" using TNode.prems(1) by simp
  have Hb: "base + length ?cells < length ?H" "?H ! (base + length ?cells) = (k, ?hprops)"
    unfolding bl by (simp_all add: nth_append)
  have "those (map (\<lambda>(key, v). map_option (Pair key)
                       (snapshot m (pre @ ?cells @ ((k, ?hprops) # post)) v)) ?hprops) = Some props"
  proof (rule snapshot_props_built)
    show "length pre = base" by (rule TNode.prems(1))
    show "sum_list (map (\<lambda>p. node_count (snd p)) props) \<le> m" by (rule m)
  next
    fix p :: "string \<times> tree" and base :: nat and pre post :: store and n :: nat
    assume p: "p \<in> set props" "length pre = base" "node_count (snd p) \<le> n"
    have "snd p \<in> Basic_BNFs.snds p"
      by (metis prod.collapse snds.intros)
    then show "snapshot n (pre @ snd (build (snd p) base) @ post) (fst (build (snd p) base)) =
        Some (snd p)"
      using p by (intro TNode.IH [of p "snd p"])
  qed
  then show ?case
    unfolding n using Hb by (simp add: build_node del: build.simps(6))
qed simp_all

lemma those_map_mono:
  assumes "\<And>x y. x \<in> set xs \<Longrightarrow> f x = Some y \<Longrightarrow> g x = Some y"
    and "those (map f xs) = Some ys"
  shows "those (map g xs) = Some ys"
  using assms
proof (induction xs arbitrary: ys)
  case Nil
  then show ?case by simp
next
  case (Cons x xs)
  from Cons.prems(2) obtain y ys' where y: "f x = Some y" "those (map f xs) = Some ys'" "ys = y # ys'"
    by (auto split: option.splits)
  have "g x = Some y" using Cons.prems(1) y(1) by simp
  moreover have "those (map g xs) = Some ys'"
    using Cons.prems(1) y(2) by (intro Cons.IH) simp_all
  ultimately show ?case using y(3) by simp
qed

lemma snapshot_more_fuel:
  "snapshot n h v = Some t \<Longrightarrow> snapshot (n + m) h v = Some t"
proof (induction n arbitrary: v t)
  case 0
  then show ?case by (cases v) simp_all
next
  case (Suc n)
  show ?case
  proof (cases v)
    case (HRef a)
    with Suc.prems obtain ps where a: "a < length h"
      and ps: "those (map (\<lambda>(key, v). map_option (Pair key) (snapshot n h v)) (snd (h ! a))) = Some ps"
      and t: "t = TNode (fst (h ! a)) ps"
      by (auto split: if_splits)
    have "those (map (\<lambda>(key, v). map_option (Pair key) (snapshot (n + m) h v)) (snd (h ! a))) = Some ps"
      using _ ps
    proof (rule those_map_mono)
      fix x y
      assume "x \<in> set (snd (h ! a))"
        "(case x of (key, v) \<Rightarrow> map_option (Pair key) (snapshot n h v)) = Some y"
      then have "map_option (Pair (fst x)) (snapshot n h (snd x)) = Some y"
        by (simp add: case_prod_beta)
      then obtain t' where "snapshot n h (snd x) = Some t'" "y = (fst x, t')"
        by auto
      then have "map_option (Pair (fst x)) (snapshot (n + m) h (snd x)) = Some y"
        by (simp add: Suc.IH)
      then show "(case x of (key, v) \<Rightarrow> map_option (Pair key) (snapshot (n + m) h v)) = Some y"
        by (simp add: case_prod_beta)
    qed
    with a t HRef show ?thesis by simp
  next
  qed (use Suc.prems in simp_all)
qed

lemma snapshot_frame:
  assumes "closed h"
  shows "(\<forall>r. v = HRef r \<longrightarrow> r < length h) \<Longrightarrow> snapshot n (h @ ext) v = snapshot n h v"
proof (induction n arbitrary: v)
  case 0
  then show ?case by (cases v) simp_all
next
  case (Suc n)
  show ?case
  proof (cases v)
    case (HRef a)
    with Suc.prems have a: "a < length h" by simp
    then have cell: "(h @ ext) ! a = h ! a" "h ! a \<in> set h"
      by (simp_all add: nth_append)
    have "map (\<lambda>(key, v). map_option (Pair key) (snapshot n (h @ ext) v)) (snd (h ! a)) =
        map (\<lambda>(key, v). map_option (Pair key) (snapshot n h v)) (snd (h ! a))"
    proof (rule map_cong [OF refl])
      fix x assume x: "x \<in> set (snd (h ! a))"
      then have "\<forall>r. snd x = HRef r \<longrightarrow> r < length h"
        using assms cell(2) by (auto simp: closed_def)
      then have "snapshot n (h @ ext) (snd x) = snapshot n h (snd x)"
        by (rule Suc.IH)
      then show "(case x of (key, v) \<Rightarrow> map_option (Pair key) (snapshot n (h @ ext) v)) =
          (case x of (key, v) \<Rightarrow> map_option (Pair key) (snapshot n h v))"
        by (simp add: case_prod_beta)
    qed
    with a cell HRef show ?thesis by (simp del: map_eq_conv)
  qed simp_all
qed

lemma build_refs:
  "(\<forall>cell \<in> set (snd (build t base)). \<forall>p \<in> set (snd cell). \<forall>r. snd p = HRef r \<longrightarrow> base \<le> r)"
  "(\<forall>p \<in> set (fst (build_props ps base)). \<forall>r. snd p = HRef r \<longrightarrow> base \<le> r)
   \<and> (\<forall>cell \<in> set (snd (build_props ps base)). \<forall>p \<in> set (snd cell). \<forall>r. snd p = HRef r \<longrightarrow> base \<le> r)"
proof (induction t base and ps base rule: build_build_props.induct)
  case (6 k props base)
  then show ?case
    by (auto simp: build_node simp del: build.simps(6))
next
  case (8 p props base)
  have fstp: "\<forall>r. fst (build (snd p) base) = HRef r \<longrightarrow> base \<le> r"
    by (auto dest!: build_ref)
  from 8(1) have a: "\<forall>cell \<in> set (snd (build (snd p) base)). \<forall>p \<in> set (snd cell). \<forall>r. snd p = HRef r \<longrightarrow> base \<le> r"
    by simp
  from 8(2) [OF refl prod.collapse]
  have b: "(\<forall>q \<in> set (fst (build_props props (base + node_count (snd p)))). \<forall>r. snd q = HRef r \<longrightarrow> base + node_count (snd p) \<le> r)
   \<and> (\<forall>cell \<in> set (snd (build_props props (base + node_count (snd p)))). \<forall>q \<in> set (snd cell). \<forall>r. snd q = HRef r \<longrightarrow> base + node_count (snd p) \<le> r)"
    by (simp add: build_cells_length)
  show ?case
    unfolding build_props_Cons using fstp a b by fastforce
qed simp_all

lemma reaches_in_store: "reaches h a b \<Longrightarrow> b < length h"
  by (induction rule: reaches.induct) simp_all

lemma reaches_fresh:
  assumes "\<forall>c. n0 \<le> c \<longrightarrow> c < length H \<longrightarrow> (\<forall>p \<in> set (snd (H ! c)). \<forall>r. snd p = HRef r \<longrightarrow> n0 \<le> r)"
    and "n0 \<le> a"
  shows "reaches H a b \<Longrightarrow> n0 \<le> b"
proof (induction rule: reaches.induct)
  case reaches_self
  show ?case by (rule assms(2))
next
  case (reaches_step b key c)
  from reaches_step(1) have "b < length H" by (rule reaches_in_store)
  with assms(1) reaches_step(4) have "\<forall>p \<in> set (snd (H ! b)). \<forall>r. snd p = HRef r \<longrightarrow> n0 \<le> r"
    by blast
  with reaches_step(2) show ?case by force
qed

lemma snapshot_ref_node:
  "snapshot n h (HRef a) = Some t \<Longrightarrow> \<exists>k props. t = TNode k props"
  by (cases n) (auto split: if_splits)

lemma clone_tree_node: "\<exists>k' props'. clone_tree (TNode k props) = TNode k' props'"
  by (cases k) simp_all

lemma processTemplateH_result:
  assumes "snapshot (Suc (length h)) h (HRef template) = Some t"
  shows "\<exists>b. processTemplateH vars template h =
             Some (HRef b, h @ snd (build (replace_tree vars (clone_tree t)) (length h)))
           \<and> fst (build (replace_tree vars (clone_tree t)) (length h)) = HRef b"
proof -
  from snapshot_ref_node [OF assms] obtain k props where t: "t = TNode k props"
    by blast
  from clone_tree_node [of k props] obtain k' props' where c: "clone_tree t = TNode k' props'"
    unfolding t by blast
  let ?cells = "snd (build (clone_tree t) (length h))"
  obtain b where b: "fst (build (clone_tree t) (length h)) = HRef b"
    unfolding c by (simp add: build_node del: build.simps(6))
  have "node_count (clone_tree t) \<le> Suc (length (h @ ?cells))"
    by (simp add: build_cells_length)
  with b have "replaceVariablesH (Suc (length (h @ ?cells))) vars b (h @ ?cells @ []) =
      Some (h @ snd (build (replace_tree vars (clone_tree t)) (length h)) @ [])"
    by (intro replaceVariablesH_built) simp_all
  then have "processTemplateH vars template h =
      Some (HRef b, h @ snd (build (replace_tree vars (clone_tree t)) (length h)))"
    using assms b
    by (simp add: processTemplateH_def case_prod_beta Let_def
        del: snapshot.simps replaceVariablesH.simps)
  moreover have "fst (build (replace_tree vars (clone_tree t)) (length h)) = HRef b"
    using b by (simp add: build_replace_tree_fst)
  ultimately show ?thesis by blast
qed

lemma processTemplateH_document:
  assumes "snapshot (Suc (length h)) h (HRef template) = Some t"
  shows "event_document (processTemplateH vars template h) =
           Some (replace_tree vars (clone_tree t))"
proof -
  let ?t' = "replace_tree vars (clone_tree t)"
  from processTemplateH_result [OF assms, of vars] obtain b where
    r: "processTemplateH vars template h = Some (HRef b, h @ snd (build ?t' (length h)))"
    and b: "fst (build ?t' (length h)) = HRef b"
    by blast
  have "snapshot (Suc (length (h @ snd (build ?t' (length h)))))
          (h @ snd (build ?t' (length h)) @ []) (fst (build ?t' (length h))) = Some ?t'"
    by (intro snapshot_built) (simp_all add: build_cells_length)
  then show ?thesis
    using r b by (simp add: event_document_def del: snapshot.simps)
qed

lemma unchanged_prefix_template:
  assumes "closed h" and "template < length h"
    and "snapshot (Suc (length h)) h (HRef template) = Some t"
    and "take (length h) h2 = h"
  shows "snapshot (Suc (length h2)) h2 (HRef template) = Some t"
proof -
  have "length (take (length h) h2) = length h"
    using assms(4) by (rule arg_cong)
  then have len: "length h \<le> length h2"
    by simp
  from assms(4) have h2: "h2 = h @ drop (length h) h2"
    by (metis append_take_drop_id)
  have "snapshot (Suc (length h)) (h @ drop (length h) h2) (HRef template) = Some t"
    using assms(1-3) snapshot_frame [of h "HRef template" "Suc (length h)" "drop (length h) h2"]
    by (simp del: snapshot.simps)
  then have "snapshot (Suc (length h)) h2 (HRef template) = Some t"
    using h2 by simp
  then have "snapshot (Suc (length h) + (length h2 - length h)) h2 (HRef template) = Some t"
    by (rule snapshot_more_fuel)
  then show ?thesis using len by (simp del: snapshot.simps)
qed

text \<open>
  The store tells a copy from the original: the walk applied to the template's own cell,
  without the copy, overwrites the template.
\<close>

lemma walk_in_place_overwrites:
  "replaceVariablesH 2 [''name'' \<mapsto> JStr ''Ann''] 0 [(PlainObject, [(''text'', HStr ''Hi {{name}}'')])] =
     Some [(PlainObject, [(''text'', HStr ''Hi Ann'')])]"
  by (simp add: eval_nat_numeral match_placeholder_def is_word_def replacer_def)

subsection \<open>The store and the values\<close>

lemma to_tree_undefined [simp]: "to_tree v = TUndefined \<longleftrightarrow> v = JUndefined"
  by (cases v) simp_all

lemma map_zip_snd: "map (\<lambda>(key, v). (key, f v)) (zip ks vs) = zip ks (map f vs)"
  by (induction ks vs rule: list_induct2') simp_all

lemma to_tree_json_clone: "to_tree (json_clone v) = clone_tree (to_tree v)"
proof (induction v)
  case (JArr xs)
  have "map to_tree (map (\<lambda>v. if v = JUndefined then JNull else json_clone v) xs) =
      map (\<lambda>t. if t = TUndefined then TNull else clone_tree t) (map to_tree xs)"
    using JArr by (auto simp: comp_def)
  then show ?case
    by (simp add: map_zip_snd del: map_map)
next
  case (JObj fs)
  have "to_tree (json_clone v) = clone_tree (to_tree v)" if "(key, v) \<in> set fs" for key v
    using JObj [of "(key, v)" v] that by simp
  then have "map (\<lambda>(key, v). (key, to_tree v))
        (map (\<lambda>(key, v). (key, json_clone v)) (filter (\<lambda>(key, v). v \<noteq> JUndefined) fs)) =
      map (\<lambda>(key, v). (key, clone_tree v))
        (filter (\<lambda>(key, v). v \<noteq> TUndefined) (map (\<lambda>(key, v). (key, to_tree v)) fs))"
    by (induction fs) auto
  then show ?case by simp
qed simp_all

lemma to_tree_walked: "to_tree (walked vars v) = replace_tree vars (to_tree v)"
proof (induction v)
  case (JArr xs)
  have "map to_tree (map (walked vars) xs) = map (replace_tree vars) (map to_tree xs)"
    using JArr by (auto simp: comp_def)
  then show ?case
    by (simp add: walked_def [of vars "JArr xs"] replaceVariables_JArr map_zip_snd
        del: map_map replaceVariables.simps)
next
  case (JObj fs)
  have "to_tree (walked vars v) = replace_tree vars (to_tree v)" if "(key, v) \<in> set fs" for key v
    using JObj [of "(key, v)" v] that by simp
  then have "map (\<lambda>(key, v). (key, to_tree v)) (map (\<lambda>(key, v). (key, walked vars v)) fs) =
      map (\<lambda>(key, v). (key, replace_tree vars v)) (map (\<lambda>(key, v). (key, to_tree v)) fs)"
    by (induction fs) auto
  then show ?case
    by (simp add: walked_def [of vars "JObj fs"] replaceVariables_JObj
        del: map_map replaceVariables.simps)
qed (simp_all add: walked_def)

lemma to_tree_processTemplate:
  "to_tree (processTemplate template vars) =
     replace_tree vars (clone_tree (to_tree (JObj template)))"
proof -
  obtain fs where c: "json_clone (JObj template) = JObj fs" by simp
  then have "replaceVariables (json_clone (JObj template)) vars =
      walked vars (json_clone (JObj template))"
    by (simp add: walked_def)
  then show ?thesis
    by (simp only: processTemplate_def to_tree_walked to_tree_json_clone)
qed

text \<open>
  The two models of \<^verbatim>\<open>processTemplate\<close> agree: when the template in the store reads as
  the template value, the event in the store reads as the event value.
\<close>

lemma processTemplateH_refines:
  assumes "snapshot (Suc (length h)) h (HRef a) = Some (to_tree (JObj template))"
  shows "event_document (processTemplateH vars a h) =
           Some (to_tree (processTemplate template vars))"
  using processTemplateH_document [OF assms] by (simp only: to_tree_processTemplate)

lemma set_update_subset: "set (AList.update k v al) \<subseteq> insert (k, v) (set al)"
  by (induction al) auto

section \<open>Unknown templates\<close>

text \<open>
  C1. For a template id that the registry does not hold, \<^verbatim>\<open>generateEvent\<close> throws the
  error \<^verbatim>\<open>Template '<id>' not found\<close>, returns no event, and leaves the whole state as
  it was: the session map and the UI-state map are unchanged, and no session record is
  made for the client id.
\<close>

theorem generateEvent_unknown_template:
  assumes "eventTemplates s templateId = None"
  shows "generateEvent clk templateId vars clientId s = (Inl (not_found templateId), s)"
  using assms by (simp add: generateEvent_def)

theorem generateEvent_unknown_template_witness:
  "eventTemplates (constructor NoInstance) ''nonexistent-template'' = None
   \<and> generateEvent sample_clock ''nonexistent-template''
         Map.empty (Some ''client-1'') (constructor NoInstance)
       = (Inl (not_found ''nonexistent-template''), constructor NoInstance)
   \<and> activeSessions (constructor NoInstance) ''client-1'' = None"
proof -
  have h: "eventTemplates (constructor NoInstance) ''nonexistent-template'' = None"
    by (simp add: constructor_def initializeEventTemplates_def)
  show ?thesis
    using h generateEvent_unknown_template [OF h] by (simp add: constructor_def)
qed

section \<open>Default and caller-supplied variables\<close>


section \<open>Placeholder substitution\<close>




section \<open>Session ids\<close>

text \<open>
  C4, as the code has it. For a client id that is not the empty string: when a record
  exists, \<^verbatim>\<open>getSessionId\<close> returns its stored session id and sets its \<open>last_activity\<close>
  from the clock; when none exists, it returns \<open>session-<clientId>-<milliseconds>\<close> and
  stores a record with that id whose \<open>last_activity\<close> is the last of the four clock
  readings taken; and after any call of \<^verbatim>\<open>generateEvent\<close> for the client, the defaults
  of the next call hold the same \<open>session_id\<close> as the defaults of that call. For the
  empty string and for \<^verbatim>\<open>null\<close> (\<open>None\<close>), \<^verbatim>\<open>getSessionId\<close> returns the one-off id
  \<open>session-<milliseconds>\<close> and changes nothing but the clock: no record is stored.
\<close>

theorem getSessionId_by_client:
  "(c \<noteq> [] \<longrightarrow>
      (\<forall>r. activeSessions s c = Some r \<longrightarrow>
            getSessionId clk (Some c) s =
              (session_id r,
               s\<lparr>clock_reads := Suc (clock_reads s),
                 activeSessions := (activeSessions s)
                   (c \<mapsto> r\<lparr>last_activity := iso (clk (clock_reads s))\<rparr>)\<rparr>))
       \<and> (activeSessions s c = None \<longrightarrow>
            getSessionId clk (Some c) s =
              (''session-'' @ c @ ''-'' @ show_nat (millis (clk (clock_reads s))),
               s\<lparr>clock_reads := clock_reads s + 4,
                 activeSessions := (activeSessions s)
                   (c \<mapsto> \<lparr>session_id =
                            ''session-'' @ c @ ''-'' @ show_nat (millis (clk (clock_reads s))),
                          created_at = iso (clk (clock_reads s + 1)),
                          last_activity = iso (clk (clock_reads s + 3))\<rparr>)\<rparr>))
       \<and> fst (defaultVariables clk (Some c)
                (snd (generateEvent clk templateId vars (Some c) s))) ''session_id'' =
           fst (defaultVariables clk (Some c) s) ''session_id'')
   \<and> (clientId = None \<or> clientId = Some [] \<longrightarrow>
        getSessionId clk clientId s =
          (''session-'' @ show_nat (millis (clk (clock_reads s))),
           s\<lparr>clock_reads := Suc (clock_reads s)\<rparr>)
        \<and> activeSessions (snd (getSessionId clk clientId s)) = activeSessions s)"
proof -
  have same: "fst (defaultVariables clk (Some c)
                (snd (generateEvent clk templateId vars (Some c) s))) ''session_id'' =
           fst (defaultVariables clk (Some c) s) ''session_id''" if ne: "c \<noteq> []"
  proof (cases "eventTemplates s templateId")
    case None
    then show ?thesis by (simp add: generateEvent_def)
  next
    case (Some template)
    let ?s1 = "snd (now clk s)"
    let ?s2 = "snd (getSessionId clk (Some c) ?s1)"
    let ?s3 = "?s2\<lparr>clock_reads := Suc (clock_reads ?s2)\<rparr>"
    from ne obtain r where r: "activeSessions ?s2 c = Some r"
      "session_id r = fst (getSessionId clk (Some c) ?s1)"
      using getSessionId_stored [of c clk ?s1] by blast
    have s3: "snd (generateEvent clk templateId vars (Some c) s) = ?s3"
      using Some by (simp add: generateEvent_state Let_def)
    have "activeSessions (snd (now clk ?s3)) c = Some r"
      using r(1) by (simp add: now_def)
    then have "fst (getSessionId clk (Some c) (snd (now clk ?s3))) = session_id r"
      using ne by (simp add: getSessionId_hit)
    then have "fst (defaultVariables clk (Some c) ?s3) ''session_id'' =
        Some (JStr (session_id r))"
      by (simp only: defaultVariables_session_id)
    moreover have "fst (defaultVariables clk (Some c) s) ''session_id'' =
        Some (JStr (fst (getSessionId clk (Some c) ?s1)))"
      by (rule defaultVariables_session_id)
    ultimately show ?thesis
      using r(2) s3 by simp
  qed
  have one_off: "getSessionId clk clientId s =
          (''session-'' @ show_nat (millis (clk (clock_reads s))),
           s\<lparr>clock_reads := Suc (clock_reads s)\<rparr>)
        \<and> activeSessions (snd (getSessionId clk clientId s)) = activeSessions s"
    if "clientId = None \<or> clientId = Some []"
    using that by (simp add: getSessionId_no_client)
  from same one_off show ?thesis
    by (simp add: getSessionId_hit getSessionId_miss)
qed

theorem getSessionId_by_client_witness:
  "fst (getSessionId sample_clock (Some ''c1'') (constructor NoInstance)) = ''session-c1-0''
   \<and> activeSessions (snd (getSessionId sample_clock (Some ''c1'') (constructor NoInstance))) ''c1'' =
       Some \<lparr>session_id = ''session-c1-0'', created_at = ''T1'', last_activity = ''T3''\<rparr>
   \<and> fst (getSessionId sample_clock (Some ''c1'')
           (snd (getSessionId sample_clock (Some ''c1'') (constructor NoInstance)))) = ''session-c1-0''
   \<and> getSessionId sample_clock None (constructor NoInstance) =
       (''session-0'', (constructor NoInstance)\<lparr>clock_reads := 1\<rparr>)"
proof -
  have ne: "''c1'' \<noteq> []" by simp
  have miss: "activeSessions (constructor NoInstance) ''c1'' = None"
    by (simp add: constructor_def)
  from getSessionId_by_client [of "''c1''" "constructor NoInstance" sample_clock] ne miss
  have 1: "getSessionId sample_clock (Some ''c1'') (constructor NoInstance) =
      (''session-c1-0'',
       (constructor NoInstance)\<lparr>clock_reads := 4,
          activeSessions := Map.empty(''c1'' \<mapsto>
            \<lparr>session_id = ''session-c1-0'', created_at = ''T1'', last_activity = ''T3''\<rparr>)\<rparr>)"
    by (simp add: constructor_def sample_clock_def)
  let ?s1 = "(constructor NoInstance)\<lparr>clock_reads := 4,
          activeSessions := Map.empty(''c1'' \<mapsto>
            \<lparr>session_id = ''session-c1-0'', created_at = ''T1'', last_activity = ''T3''\<rparr>)\<rparr>"
  have hit: "activeSessions ?s1 ''c1'' =
      Some \<lparr>session_id = ''session-c1-0'', created_at = ''T1'', last_activity = ''T3''\<rparr>"
    by simp
  from getSessionId_by_client [of "''c1''" ?s1 sample_clock] ne hit
  have 2: "fst (getSessionId sample_clock (Some ''c1'') ?s1) = ''session-c1-0''"
    by simp
  from getSessionId_by_client [of _ "constructor NoInstance" sample_clock _ _ None]
  have 3: "getSessionId sample_clock None (constructor NoInstance) =
       (''session-0'', (constructor NoInstance)\<lparr>clock_reads := 1\<rparr>)"
    by (simp add: constructor_def sample_clock_def)
  from 1 2 3 show ?thesis by simp
qed

text \<open>
  The claim as written fails for the empty string, which \<^verbatim>\<open>!clientId\<close> treats like
  \<^verbatim>\<open>null\<close>: the id has no client part, no record is stored, and two calls of
  \<^verbatim>\<open>generateEvent\<close> get different session ids.
\<close>

theorem getSessionId_empty_client_counterexample:
  "fst (getSessionId sample_clock (Some '''') (constructor NoInstance)) = ''session-0''
   \<and> activeSessions (snd (getSessionId sample_clock (Some '''') (constructor NoInstance))) '''' = None
   \<and> fst (defaultVariables sample_clock (Some '''')
           (addCustomTemplate ''t'' [] (constructor NoInstance))) ''session_id'' =
       Some (JStr ''session-1'')
   \<and> fst (defaultVariables sample_clock (Some '''')
           (snd (generateEvent sample_clock ''t'' Map.empty (Some '''')
                  (addCustomTemplate ''t'' [] (constructor NoInstance))))) ''session_id'' =
       Some (JStr ''session-4'')"
  by (simp add: run_defs)

section \<open>Templates and their events share no cell\<close>

text \<open>
  C5, on the store. Take a store in which every reference points to a cell, a template
  object in it, and a call of \<^verbatim>\<open>generateEvent\<close> for it that returns. Then
  \<^item> every cell that existed before the call is as it was: the substitution and the
    metadata were written only into cells made by the call;
  \<^item> every cell the returned event can reach was made by the call, so overwriting any of
    them leaves all earlier cells, the template's among them, untouched;
  \<^item> in any later store whose earlier cells are untouched, whatever happened to the cells
    of the event, the stored template reads as before, and the template processed again,
    for any variables, gives what it would have given had the first event never been
    touched;
  \<^item> what the template gives when processed is the walked copy of its document.
\<close>

theorem generated_event_is_isolated:
  assumes "closed h" and "template < length h"
    and "generateEventH vars templateId generated_at clientId template h = Some (event, h')"
  shows "take (length h) h' = h
       \<and> (\<exists>e. event = HRef e
              \<and> (\<forall>c. reaches h' e c \<longrightarrow>
                    length h \<le> c \<and> (\<forall>cell. take (length h) (h'[c := cell]) = h)))
       \<and> (\<forall>h2. take (length h) h2 = h \<longrightarrow>
              snapshot (Suc (length h2)) h2 (HRef template) =
                snapshot (Suc (length h)) h (HRef template)
              \<and> (\<forall>vars'. event_document (processTemplateH vars' template h2) =
                            event_document (processTemplateH vars' template h)))
       \<and> (\<exists>t. snapshot (Suc (length h)) h (HRef template) = Some t
              \<and> event_document (processTemplateH vars template h) =
                  Some (replace_tree vars (clone_tree t)))"
proof -
  from assms(3) obtain b h1 where p: "processTemplateH vars template h = Some (HRef b, h1)"
    and ev: "event = HRef b"
    and h': "h' = (h1 @ [metadata_cell templateId generated_at clientId])
                  [b := (fst (h1 ! b),
                         AList.update ''agui_metadata'' (HRef (length h1)) (snd (h1 ! b)))]"
    by (auto simp: generateEventH_def split: option.splits hval.splits)
  from p obtain t where t: "snapshot (Suc (length h)) h (HRef template) = Some t"
    by (auto simp: processTemplateH_def simp del: snapshot.simps split: option.splits)
  let ?t' = "replace_tree vars (clone_tree t)"
  let ?cells = "snd (build ?t' (length h))"
  from processTemplateH_result [OF t, of vars] p have
    h1: "h1 = h @ ?cells" and b: "fst (build ?t' (length h)) = HRef b"
    by auto
  from b have bl: "length h \<le> b" "b < length h1"
    by (auto dest!: build_ref simp: h1 build_cells_length)
  have 1: "take (length h) h' = h"
    using bl by (simp add: h' h1)
  have cells_refs: "\<forall>p\<in>set (snd cell). \<forall>r. snd p = HRef r \<longrightarrow> length h \<le> r"
    if "cell \<in> set ?cells" for cell
    using build_refs(1) [of ?t' "length h"] that by blast
  have in_cells: "h1 ! c \<in> set ?cells" if "length h \<le> c" "c < length h1" for c
  proof -
    from that have "h1 ! c = ?cells ! (c - length h)" "c - length h < length ?cells"
      by (auto simp: h1 nth_append)
    then show ?thesis by simp
  qed
  have fresh_refs: "\<forall>p\<in>set (snd (h' ! c)). \<forall>r. snd p = HRef r \<longrightarrow> length h \<le> r"
    if c: "length h \<le> c" "c < length h'" for c
  proof -
    consider "c = b" | "c \<noteq> b" "c < length h1" | "c \<noteq> b" "c = length h1"
      using c bl by (cases "c = b"; cases "c < length h1") (auto simp: h')
    then show ?thesis
    proof cases
      case 1
      then have "snd (h' ! c) = AList.update ''agui_metadata'' (HRef (length h1)) (snd (h1 ! b))"
        using bl by (simp add: h')
      moreover have "\<forall>p\<in>set (snd (h1 ! b)). \<forall>r. snd p = HRef r \<longrightarrow> length h \<le> r"
        using in_cells [of b] bl cells_refs by blast
      moreover have "length h \<le> length h1" by (simp add: h1)
      ultimately show ?thesis
        using set_update_subset [of "''agui_metadata''" "HRef (length h1)" "snd (h1 ! b)"]
        by fastforce
    next
      case 2
      then have "h' ! c = h1 ! c" by (simp add: h' nth_append)
      then show ?thesis using in_cells [of c] 2 c cells_refs by simp
    next
      case 3
      then have "h' ! c = metadata_cell templateId generated_at clientId"
        by (simp add: h' nth_append)
      then show ?thesis by (auto simp: metadata_cell_def split: option.splits)
    qed
  qed
  have fresh: "length h \<le> c" if "reaches h' b c" for c
    using _ bl(1) that
  proof (rule reaches_fresh)
    show "\<forall>c. length h \<le> c \<longrightarrow> c < length h' \<longrightarrow>
        (\<forall>p\<in>set (snd (h' ! c)). \<forall>r. snd p = HRef r \<longrightarrow> length h \<le> r)"
      using fresh_refs by blast
  qed
  have 2: "\<forall>c. reaches h' b c \<longrightarrow>
      length h \<le> c \<and> (\<forall>cell. take (length h) (h'[c := cell]) = h)"
    using fresh 1 by simp
  have 3: "snapshot (Suc (length h2)) h2 (HRef template) =
                snapshot (Suc (length h)) h (HRef template)
              \<and> (\<forall>vars'. event_document (processTemplateH vars' template h2) =
                            event_document (processTemplateH vars' template h))"
    if "take (length h) h2 = h" for h2
  proof -
    have t2: "snapshot (Suc (length h2)) h2 (HRef template) = Some t"
      using assms(1,2) t that by (rule unchanged_prefix_template)
    then show ?thesis
      using t processTemplateH_document [OF t2] processTemplateH_document [OF t]
      by (simp del: snapshot.simps)
  qed
  have 4: "event_document (processTemplateH vars template h) = Some ?t'"
    by (rule processTemplateH_document [OF t])
  from 1 2 3 4 t ev show ?thesis by blast
qed

theorem generated_event_is_isolated_witness:
  "generateEventH [''name'' \<mapsto> JStr ''Ann''] ''t'' ''T2'' None 0
     [(PlainObject, [(''text'', HStr ''Hi {{name}}'')])] =
     Some (HRef 1,
       [(PlainObject, [(''text'', HStr ''Hi {{name}}'')]),
        (PlainObject, [(''text'', HStr ''Hi Ann''), (''agui_metadata'', HRef 2)]),
        (PlainObject, [(''generated_by'', HStr ''ui-agent''), (''template_id'', HStr ''t''),
                       (''generated_at'', HStr ''T2''), (''client_id'', HNull)])])
   \<and> \<not> reaches
       [(PlainObject, [(''text'', HStr ''Hi {{name}}'')]),
        (PlainObject, [(''text'', HStr ''Hi Ann''), (''agui_metadata'', HRef 2)]),
        (PlainObject, [(''generated_by'', HStr ''ui-agent''), (''template_id'', HStr ''t''),
                       (''generated_at'', HStr ''T2''), (''client_id'', HNull)])] 1 0
   \<and> event_document (processTemplateH [''name'' \<mapsto> JStr ''Bob''] 0
        [(PlainObject, [(''text'', HStr ''Hi {{name}}'')]),
         (PlainObject, [(''text'', HStr ''changed'')]),
         (PlainObject, [(''generated_by'', HStr ''nobody'')])]) =
     event_document (processTemplateH [''name'' \<mapsto> JStr ''Bob''] 0
        [(PlainObject, [(''text'', HStr ''Hi {{name}}'')])])"
proof -
  let ?h = "[(PlainObject, [(''text'', HStr ''Hi {{name}}'')])]"
  let ?h1 = "[(PlainObject, [(''text'', HStr ''Hi {{name}}'')]),
        (PlainObject, [(''text'', HStr ''Hi Ann''), (''agui_metadata'', HRef 2)]),
        (PlainObject, [(''generated_by'', HStr ''ui-agent''), (''template_id'', HStr ''t''),
                       (''generated_at'', HStr ''T2''), (''client_id'', HNull)])]"
  let ?h2 = "[(PlainObject, [(''text'', HStr ''Hi {{name}}'')]),
         (PlainObject, [(''text'', HStr ''changed'')]),
         (PlainObject, [(''generated_by'', HStr ''nobody'')])]"
  have c: "closed ?h" by (simp add: closed_def)
  have l: "(0::nat) < length ?h" by simp
  have g: "generateEventH [''name'' \<mapsto> JStr ''Ann''] ''t'' ''T2'' None 0 ?h = Some (HRef 1, ?h1)"
    by (simp add: generateEventH_def processTemplateH_def metadata_cell_def
        match_placeholder_def is_word_def replacer_def)
  have p: "take (length ?h) ?h2 = ?h" by simp
  from generated_event_is_isolated [OF c l g]
  have "\<forall>c. reaches ?h1 1 c \<longrightarrow> length ?h \<le> c"
    and "event_document (processTemplateH [''name'' \<mapsto> JStr ''Bob''] 0 ?h2) =
         event_document (processTemplateH [''name'' \<mapsto> JStr ''Bob''] 0 ?h)"
    using p by blast+
  then have "\<not> reaches ?h1 1 0"
    and "event_document (processTemplateH [''name'' \<mapsto> JStr ''Bob''] 0 ?h2) =
         event_document (processTemplateH [''name'' \<mapsto> JStr ''Bob''] 0 ?h)"
    by auto
  with g show ?thesis by blast
qed

section \<open>Provider failures in the display flows\<close>




section \<open>Delivery failures\<close>




section \<open>Provider data in the display events\<close>

text \<open>
  C8 does not hold of the code. The provider's object reaches the template only as a
  variable, and the placeholder is replaced inside a string, so the \<open>data\<close> field of the
  event is the string conversion of the object, never the object: with one agent listed,
  \<open>data\<close> is the text \<open>[object Object]\<close> and \<open>total_agents\<close> the text \<open>1\<close>; the
  metrics object of the health flow comes out as \<open>[object Object]\<close> as well.
\<close>

theorem provider_data_is_stringified:
  "fst (generateAgentListDisplay sample_clock (Some ''c1'')
         (constructor (Instance answering_provider))) =
     Inr (JObj
        [(''type'', JStr ''display''),
         (''template'', JObj
           [(''type'', JStr ''table''),
            (''title'', JStr ''Active Agents''),
            (''columns'', JArr [JStr ''id'', JStr ''name'', JStr ''status'', JStr ''created_at'']),
            (''data'', JStr ''[object Object]''),
            (''timestamp'', JStr ''T0''),
            (''metadata'', JObj
              [(''event_type'', JStr ''agent_list''),
               (''total_agents'', JStr ''1'')])]),
         (''agui_metadata'', JObj
           [(''generated_by'', JStr ''ui-agent''),
            (''template_id'', JStr ''display-agent-list''),
            (''generated_at'', JStr ''T5''),
            (''client_id'', JStr ''c1'')])])
   \<and> fst (generateSystemHealthDisplay sample_clock (Some ''c1'')
         (constructor (Instance answering_provider))) =
     Inr (JObj
        [(''type'', JStr ''display''),
         (''template'', JObj
           [(''type'', JStr ''metrics''),
            (''title'', JStr ''System Metrics''),
            (''data'', JStr ''[object Object]''),
            (''timestamp'', JStr ''T0''),
            (''metadata'', JObj
              [(''event_type'', JStr ''metrics''),
               (''refresh_rate'', JStr ''30s'')])]),
         (''agui_metadata'', JObj
           [(''generated_by'', JStr ''ui-agent''),
            (''template_id'', JStr ''display-metrics''),
            (''generated_at'', JStr ''T5''),
            (''client_id'', JStr ''c1'')])])"
  by (simp add: generateAgentListDisplay_def generateSystemHealthDisplay_def flow_defs
      answering_provider_def initializeEventTemplates_def display_agent_list_template_def
      display_metrics_template_def show_int_def run_defs)

section \<open>Arrays in a template\<close>




section \<open>Names outside the word class\<close>

text \<open>
  C10, as the code has it. Only a non-empty run of word characters is ever captured, so a
  variable whose name has any other character is never looked up: setting, changing or
  removing it, to any value at all and in any variable set, changes no output. The rest is
  for merged variables whose values \<^verbatim>\<open>String\<close> converts (\<open>plain_value\<close>). When
  such a name has no brace in it, the text \<open>{{name}}\<close> in a string field of a registered
  template stays as it is in the event, whatever the merged variables hold. When the text
  \<open>{{name}}\<close> contains a well-formed placeholder \<open>{{inner}}\<close>, with \<open>inner\<close> a
  non-empty run of word characters (inside the name, or made of a brace of the name and
  the braces around it), that placeholder is substituted like any other, the text before
  and after it on their own.
\<close>

theorem non_word_names_not_substituted:
  assumes "eventTemplates s templateId = Some template"
    and "get_path (JObj template) p = Some (JStr (pre @ ''{{'' @ name @ ''}}'' @ post))"
    and "hd p \<noteq> Key ''agui_metadata''"
    and "\<not> list_all is_word name"
    and "merged = mergedVariables (fst (defaultVariables clk clientId s)) vars"
    and "\<forall>key v. merged key = Some v \<longrightarrow> plain_value v"
  shows "(\<forall>str variables x.
            replaceStringVariables str (variables(name := x)) = replaceStringVariables str variables)
       \<and> (CHR ''{'' \<notin> set name \<and> CHR ''}'' \<notin> set name \<longrightarrow>
            (\<exists>event. fst (generateEvent clk templateId vars clientId s) = Inr event
               \<and> get_path event p =
                   Some (JStr (replaceStringVariables pre merged @ ''{{'' @ name @ ''}}''
                                 @ replaceStringVariables post merged))))
       \<and> (\<forall>before inner after.
            ''{{'' @ name @ ''}}'' = before @ ''{{'' @ inner @ ''}}'' @ after \<and> word_name inner \<longrightarrow>
            (\<exists>event. fst (generateEvent clk templateId vars clientId s) = Inr event
               \<and> get_path event p =
                   Some (JStr (replaceStringVariables (pre @ before) merged
                                 @ replacer merged inner
                                 @ replaceStringVariables (after @ post) merged))))"
proof -
  have a: "\<forall>str variables x.
      replaceStringVariables str (variables(name := x)) = replaceStringVariables str variables"
    using assms(4) by (simp add: replaceStringVariables_ignores_non_word)
  have f: "\<exists>event. fst (generateEvent clk templateId vars clientId s) = Inr event
            \<and> get_path event p =
                Some (JStr (replaceStringVariables (pre @ ''{{'' @ name @ ''}}'' @ post) merged))"
    unfolding assms(5) using assms(1-3) by (rule generateEvent_field)
  have b: "\<exists>event. fst (generateEvent clk templateId vars clientId s) = Inr event
               \<and> get_path event p =
                   Some (JStr (replaceStringVariables pre merged @ ''{{'' @ name @ ''}}''
                                 @ replaceStringVariables post merged))"
    if "CHR ''{'' \<notin> set name" "CHR ''}'' \<notin> set name"
    using f replaceStringVariables_verbatim [OF assms(4) that, of pre post merged]
    by simp
  have c: "\<exists>event. fst (generateEvent clk templateId vars clientId s) = Inr event
               \<and> get_path event p =
                   Some (JStr (replaceStringVariables (pre @ before) merged
                                 @ replacer merged inner
                                 @ replaceStringVariables (after @ post) merged))"
    if eq: "''{{'' @ name @ ''}}'' = before @ ''{{'' @ inner @ ''}}'' @ after"
      and w: "word_name inner" for before inner after
  proof -
    have "pre @ ''{{'' @ name @ ''}}'' @ post = pre @ (''{{'' @ name @ ''}}'') @ post"
      by simp
    also have "\<dots> = (pre @ before) @ ''{{'' @ inner @ ''}}'' @ (after @ post)"
      unfolding eq by simp
    finally have "replaceStringVariables (pre @ ''{{'' @ name @ ''}}'' @ post) merged =
        replaceStringVariables (pre @ before) merged @ replacer merged inner
          @ replaceStringVariables (after @ post) merged"
      using replaceStringVariables_placeholder [OF w, of "pre @ before" "after @ post" merged]
      by (simp only:)
    with f show ?thesis by (simp only:)
  qed
  from a b c show ?thesis by blast
qed

theorem non_word_names_not_substituted_witness:
  "(\<exists>event. fst (generateEvent sample_clock ''t'' [''my-name'' \<mapsto> JStr ''Ann''] None
               (addCustomTemplate ''t'' [(''text'', JStr ''Hi {{my-name}}!'')]
                  (constructor NoInstance))) = Inr event
     \<and> get_path event [Key ''text''] = Some (JStr ''Hi {{my-name}}!''))
   \<and> (\<exists>event. fst (generateEvent sample_clock ''u'' [''{agent_name'' \<mapsto> JStr ''Ann''] None
               (addCustomTemplate ''u'' [(''text'', JStr ''Hi {{{agent_name}}!'')]
                  (constructor NoInstance))) = Inr event
     \<and> get_path event [Key ''text''] = Some (JStr ''Hi {AutoWeave!''))"
proof -
  let ?tpl = "[(''text'', JStr ''Hi {{my-name}}!'')]"
  let ?s = "addCustomTemplate ''t'' ?tpl (constructor NoInstance)"
  let ?vars = "[''my-name'' \<mapsto> JStr ''Ann'']"
  let ?merged = "mergedVariables (fst (defaultVariables sample_clock None ?s)) ?vars"
  have h1: "eventTemplates ?s ''t'' = Some ?tpl"
    by (simp add: addCustomTemplate_def)
  have h2: "get_path (JObj ?tpl) [Key ''text''] =
      Some (JStr (''Hi '' @ ''{{'' @ ''my-name'' @ ''}}'' @ ''!''))"
    by simp
  have h3: "hd [Key ''text''] \<noteq> Key ''agui_metadata''"
    by simp
  have h4: "\<not> list_all is_word ''my-name''"
    by (simp add: is_word_def)
  have nb: "CHR ''{'' \<notin> set ''my-name'' \<and> CHR ''}'' \<notin> set ''my-name''"
    by simp
  have r: "replaceStringVariables ''Hi '' ?merged @ ''{{'' @ ''my-name'' @ ''}}''
             @ replaceStringVariables ''!'' ?merged = ''Hi {{my-name}}!''"
    by (simp add: match_placeholder_def)
  have h6: "\<forall>key v. ?merged key = Some v \<longrightarrow> plain_value v"
    by (auto simp: mergedVariables_def defaultVariables_def getSessionId_def now_def
        split: if_splits)
  from non_word_names_not_substituted
      [where clk = sample_clock and clientId = None and vars = ?vars, OF h1 h2 h3 h4 refl h6] nb
  obtain event where
    "fst (generateEvent sample_clock ''t'' ?vars None ?s) = Inr event"
    "get_path event [Key ''text''] =
       Some (JStr (replaceStringVariables ''Hi '' ?merged @ ''{{'' @ ''my-name'' @ ''}}''
             @ replaceStringVariables ''!'' ?merged))"
    by blast
  then have first: "\<exists>event. fst (generateEvent sample_clock ''t'' ?vars None ?s) = Inr event
     \<and> get_path event [Key ''text''] = Some (JStr ''Hi {{my-name}}!'')"
    unfolding r by blast
  let ?tpl2 = "[(''text'', JStr ''Hi {{{agent_name}}!'')]"
  let ?s2 = "addCustomTemplate ''u'' ?tpl2 (constructor NoInstance)"
  let ?vars2 = "[''{agent_name'' \<mapsto> JStr ''Ann'']"
  let ?merged2 = "mergedVariables (fst (defaultVariables sample_clock None ?s2)) ?vars2"
  have k1: "eventTemplates ?s2 ''u'' = Some ?tpl2"
    by (simp add: addCustomTemplate_def)
  have k2: "get_path (JObj ?tpl2) [Key ''text''] =
      Some (JStr (''Hi '' @ ''{{'' @ ''{agent_name'' @ ''}}'' @ ''!''))"
    by simp
  have k4: "\<not> list_all is_word ''{agent_name''"
    by (simp add: is_word_def)
  have k5: "''{{'' @ ''{agent_name'' @ ''}}'' = ''{'' @ ''{{'' @ ''agent_name'' @ ''}}'' @ []
      \<and> word_name ''agent_name''"
    by (simp add: word_name_def is_word_def)
  have m2: "?merged2 ''agent_name'' = Some (JStr ''AutoWeave'')"
    by (simp add: mergedVariables_def defaultVariables_def getSessionId_def now_def)
  have r2: "replaceStringVariables (''Hi '' @ ''{'') ?merged2 @ replacer ?merged2 ''agent_name''
             @ replaceStringVariables ([] @ ''!'') ?merged2 = ''Hi {AutoWeave!''"
    by (simp add: match_placeholder_def replacer_def m2)
  have k6: "\<forall>key v. ?merged2 key = Some v \<longrightarrow> plain_value v"
    by (auto simp: mergedVariables_def defaultVariables_def getSessionId_def now_def
        split: if_splits)
  from non_word_names_not_substituted
      [where clk = sample_clock and clientId = None and vars = ?vars2, OF k1 k2 h3 k4 refl k6] k5
  obtain event2 where
    "fst (generateEvent sample_clock ''u'' ?vars2 None ?s2) = Inr event2"
    "get_path event2 [Key ''text''] =
       Some (JStr (replaceStringVariables (''Hi '' @ ''{'') ?merged2 @ replacer ?merged2 ''agent_name''
             @ replaceStringVariables ([] @ ''!'') ?merged2))"
    by blast
  then have second: "\<exists>event. fst (generateEvent sample_clock ''u'' ?vars2 None ?s2) = Inr event
     \<and> get_path event [Key ''text''] = Some (JStr ''Hi {AutoWeave!'')"
    unfolding r2 by blast
  from first second show ?thesis by blast
qed

text \<open>
  The claim as written fails for a name that contains a placeholder: the supplied variable
  is named \<open>x {{agent_name}}\<close>, and its occurrence is rewritten.
\<close>

theorem non_word_name_rewritten_counterexample:
  "fst (generateEvent sample_clock ''t'' [''x {{agent_name}}'' \<mapsto> JStr ''v''] None
         (addCustomTemplate ''t'' [(''text'', JStr ''{{x {{agent_name}}}}'')] (constructor NoInstance))) =
     Inr (JObj
        [(''text'', JStr ''{{x AutoWeave}}''),
         (''agui_metadata'', JObj
           [(''generated_by'', JStr ''ui-agent''),
            (''template_id'', JStr ''t''),
            (''generated_at'', JStr ''T2''),
            (''client_id'', JNull)])])
   \<and> \<not> list_all is_word ''x {{agent_name}}''"
  by (simp add: run_defs)


end
